theory Spec2Isabelle
  imports Main "HOL-Library.Word"
begin

section \<open>The streaming tool-call aggregator of \<open>ai_enhanced.py\<close>\<close>

subsection \<open>Data of the stream\<close>

text \<open>
  One element of \<open>delta.tool_calls\<close>: \<open>tool_call.index\<close>,
  \<open>tool_call.function.name\<close> and \<open>tool_call.function.arguments\<close>. The last two
  may be \<open>None\<close> in a streamed fragment.
\<close>

record tool_call =
  index :: int
  function_name :: "string option"
  function_arguments :: "string option"

text \<open>\<open>chunk.choices[0].delta\<close>: optional text and an optional list of fragments.\<close>

record delta =
  content :: "string option"
  tool_calls :: "tool_call list option"

text \<open>The dictionary \<open>{"name": ..., "arguments": ...}\<close> built for every call.\<close>

record func_call =
  name :: string
  arguments :: string

subsection \<open>Python primitives used by the loop\<close>

text \<open>Truth value of an optional string: \<open>None\<close> and \<open>""\<close> are false.\<close>

fun str_truthy :: "string option \<Rightarrow> bool" where
  "str_truthy None = False"
| "str_truthy (Some s) = (s \<noteq> [])"

text \<open>\<open>x or ""\<close> for an optional string.\<close>

fun or_empty :: "string option \<Rightarrow> string" where
  "or_empty None = []"
| "or_empty (Some s) = s"

text \<open>Truth value of an optional list: \<open>None\<close> and \<open>[]\<close> are false.\<close>

fun list_truthy :: "'a list option \<Rightarrow> bool" where
  "list_truthy None = False"
| "list_truthy (Some xs) = (xs \<noteq> [])"

text \<open>
  A Python \<open>dict\<close> keeps its keys in insertion order, and the code iterates over
  \<open>current_function_calls.items()\<close>, so the dictionary is an association list in
  insertion order. \<open>dict_set\<close> is \<open>d[k] = v\<close>: an existing key keeps its position,
  a new key goes to the end.
\<close>

type_synonym ('k, 'v) dict = "('k \<times> 'v) list"

fun dict_get :: "('k, 'v) dict \<Rightarrow> 'k \<Rightarrow> 'v option" where
  "dict_get [] k = None"
| "dict_get ((k', v) # d) k = (if k' = k then Some v else dict_get d k)"

fun dict_set :: "('k, 'v) dict \<Rightarrow> 'k \<Rightarrow> 'v \<Rightarrow> ('k, 'v) dict" where
  "dict_set [] k v = [(k, v)]"
| "dict_set ((k', v') # d) k v = (if k' = k then (k, v) # d else (k', v') # dict_set d k v)"

definition dict_keys :: "('k, 'v) dict \<Rightarrow> 'k list" where
  "dict_keys d = map fst d"

definition dict_values :: "('k, 'v) dict \<Rightarrow> 'v list" where
  "dict_values d = map snd d"

subsection \<open>The aggregation loop\<close>

text \<open>
  The state of the loop: \<open>function_calls\<close> (the completed invocations, in the order
  they were appended) and \<open>current_function_calls\<close> (the pending invocations by slot).
\<close>

record agg_state =
  function_calls :: "func_call list"
  current_function_calls :: "(int, func_call) dict"

definition init_state :: agg_state where
  "init_state = \<lparr>function_calls = [], current_function_calls = []\<rparr>"

text \<open>The body of \<open>for tool_call in delta.tool_calls\<close> (lines 80-97 and 295-310).\<close>

definition tool_call_step :: "agg_state \<Rightarrow> tool_call \<Rightarrow> agg_state" where
  "tool_call_step st tc =
     (let call_index = index tc in
      if str_truthy (function_name tc) then
        (let st1 = (case dict_get (current_function_calls st) call_index of
                      Some old \<Rightarrow> st\<lparr>function_calls := function_calls st @ [old]\<rparr>
                    | None \<Rightarrow> st)
         in st1\<lparr>current_function_calls :=
                  dict_set (current_function_calls st1) call_index
                    \<lparr>name = or_empty (function_name tc),
                     arguments = or_empty (function_arguments tc)\<rparr>\<rparr>)
      else
        (case dict_get (current_function_calls st) call_index of
           Some cur \<Rightarrow>
             st\<lparr>current_function_calls :=
                  dict_set (current_function_calls st) call_index
                    (cur\<lparr>arguments := arguments cur @ or_empty (function_arguments tc)\<rparr>)\<rparr>
         | None \<Rightarrow> st))"

text \<open>The body of \<open>async for chunk in stream\<close>, as far as the two dictionaries go.\<close>

definition delta_step :: "agg_state \<Rightarrow> delta \<Rightarrow> agg_state" where
  "delta_step st d =
     (if list_truthy (tool_calls d) then foldl tool_call_step st (the (tool_calls d)) else st)"

text \<open>
  \<open>for call_index, func_call in current_function_calls.items():
  function_calls.append(func_call)\<close> (lines 100-101 and 313-314).
\<close>

definition finalize :: "agg_state \<Rightarrow> func_call list" where
  "finalize st = function_calls st @ dict_values (current_function_calls st)"

text \<open>The completed invocations of a whole stream.\<close>

definition aggregate :: "delta list \<Rightarrow> func_call list" where
  "aggregate stream = finalize (foldl delta_step init_state stream)"

text \<open>The fragments of a stream in arrival order.\<close>

definition fragments :: "delta list \<Rightarrow> tool_call list" where
  "fragments stream = concat (map (\<lambda>d. if list_truthy (tool_calls d) then the (tool_calls d) else []) stream)"

text \<open>The two kinds of fragment of the specification: one that opens an invocation, one
  that carries a piece of its argument text.\<close>

definition named_fragment :: "int \<Rightarrow> string \<Rightarrow> tool_call" where
  "named_fragment slot n = \<lparr>index = slot, function_name = Some n, function_arguments = None\<rparr>"

definition chunk_fragment :: "int \<Rightarrow> string \<Rightarrow> tool_call" where
  "chunk_fragment slot c = \<lparr>index = slot, function_name = None, function_arguments = Some c\<rparr>"

text \<open>
  The hypothesis of the per-slot property: every fragment with a non-empty name uses a slot
  that no earlier fragment of the stream carries. \<open>seen\<close> holds the slots met so far.
\<close>

fun fresh_from :: "int list \<Rightarrow> tool_call list \<Rightarrow> bool" where
  "fresh_from seen [] = True"
| "fresh_from seen (tc # tcs) =
     ((\<not> str_truthy (function_name tc) \<or> index tc \<notin> set seen) \<and> fresh_from (index tc # seen) tcs)"

definition names_use_fresh_slots :: "tool_call list \<Rightarrow> bool" where
  "names_use_fresh_slots tcs = fresh_from [] tcs"

text \<open>All argument text delivered for one slot, in arrival order.\<close>

definition slot_chunks :: "tool_call list \<Rightarrow> int \<Rightarrow> string" where
  "slot_chunks tcs slot =
     concat (map (\<lambda>tc. or_empty (function_arguments tc)) (filter (\<lambda>tc. index tc = slot) tcs))"

text \<open>The fragments that open an invocation.\<close>

definition opening_fragments :: "tool_call list \<Rightarrow> tool_call list" where
  "opening_fragments tcs = filter (\<lambda>tc. str_truthy (function_name tc)) tcs"

text \<open>The slots of a stream in the order in which they are first opened.\<close>

fun opened_slots :: "int list \<Rightarrow> tool_call list \<Rightarrow> int list" where
  "opened_slots acc [] = acc"
| "opened_slots acc (tc # tcs) =
     opened_slots (if str_truthy (function_name tc) \<and> index tc \<notin> set acc
                   then acc @ [index tc] else acc) tcs"

section \<open>Parsed arguments\<close>

text \<open>
  The values \<open>json.loads\<close> returns. A float is its IEEE 754 double bit pattern. An
  object is a Python \<open>dict\<close> with string keys, held as an association list in
  insertion order in which every key occurs once.
\<close>

datatype json =
    JNull
  | JBool bool
  | JInt int
  | JFloat "64 word"
  | JStr string
  | JArr "json list"
  | JObj "(string \<times> json) list"

text \<open>
  The exceptions met in the code. \<open>json.loads\<close> is a parameter \<open>loads\<close> of the
  model: it returns the parsed value, or the exception the library raises on the text, which is
  \<open>json.JSONDecodeError\<close> for malformed text, and also \<open>RecursionError\<close> for
  nesting deeper than the interpreter's limit or a plain \<open>ValueError\<close> for an integer
  beyond the digit limit. The handlers catch \<open>json.JSONDecodeError\<close> and nothing else;
  that it is a subclass of \<open>ValueError\<close> plays no part, since nothing catches
  \<open>ValueError\<close>.
\<close>

datatype error = AttributeError | TypeError | ValueError | RecursionError | JSONDecodeError

text \<open>Python's truth value of a parsed value (\<open>if x\<close>, \<open>not x\<close>).\<close>

fun truthy :: "json \<Rightarrow> bool" where
  "truthy JNull = False"
| "truthy (JBool b) = b"
| "truthy (JInt i) = (i \<noteq> 0)"
| "truthy (JFloat w) = (w \<noteq> 0 \<and> w \<noteq> 0x8000000000000000)"
| "truthy (JStr s) = (s \<noteq> [])"
| "truthy (JArr xs) = (xs \<noteq> [])"
| "truthy (JObj kv) = (kv \<noteq> [])"

text \<open>\<open>d.get(k, dflt)\<close> on a dictionary.\<close>

definition get_default :: "('k, 'v) dict \<Rightarrow> 'k \<Rightarrow> 'v \<Rightarrow> 'v" where
  "get_default d k dflt = (case dict_get d k of Some v \<Rightarrow> v | None \<Rightarrow> dflt)"

text \<open>
  \<open>x.get(k, dflt)\<close> on a parsed value: only a \<open>dict\<close> has the method, everything else
  raises \<open>AttributeError\<close>.
\<close>

fun json_get :: "json \<Rightarrow> string \<Rightarrow> json \<Rightarrow> error + json" where
  "json_get (JObj kv) k dflt = Inr (get_default kv k dflt)"
| "json_get _ k dflt = Inl AttributeError"

text \<open>
  \<open>for issue in text_issues\<close>: a list gives its elements, a dictionary its keys, a
  string its characters; the other values are not iterable.
\<close>

fun iterate :: "json \<Rightarrow> error + json list" where
  "iterate (JArr xs) = Inr xs"
| "iterate (JObj kv) = Inr (map (\<lambda>p. JStr (fst p)) kv)"
| "iterate (JStr s) = Inr (map (\<lambda>c. JStr [c]) s)"
| "iterate _ = Inl TypeError"

text \<open>The comprehension \<open>[issue.get(k, dflt) for issue in text_issues]\<close>.\<close>

fun collect :: "string \<Rightarrow> json \<Rightarrow> json list \<Rightarrow> error + json list" where
  "collect k dflt [] = Inr []"
| "collect k dflt (x # xs) =
     (case json_get x k dflt of
        Inl e \<Rightarrow> Inl e
      | Inr v \<Rightarrow> (case collect k dflt xs of Inl e \<Rightarrow> Inl e | Inr vs \<Rightarrow> Inr (v # vs)))"

text \<open>
  \<open>severity_order.get(x, 2)\<close> with \<open>severity_order = {"high": 3, "medium": 2, "low": 1}\<close>.
  The key is hashed first: a list or a dictionary raises \<open>TypeError\<close>. Only a string can
  equal one of the three keys.
\<close>

fun severity_order :: "json \<Rightarrow> error + int" where
  "severity_order (JStr s) =
     Inr (if s = ''high'' then 3 else if s = ''medium'' then 2 else if s = ''low'' then 1 else 2)"
| "severity_order (JArr xs) = Inl TypeError"
| "severity_order (JObj kv) = Inl TypeError"
| "severity_order _ = Inr 2"

text \<open>
  The builtin \<open>max(xs, key=f)\<close>: the key of every element is computed, an element replaces
  the current maximum only when its key is strictly greater, and an empty argument raises
  \<open>ValueError\<close>.
\<close>

fun max_loop :: "('a \<Rightarrow> error + int) \<Rightarrow> 'a \<Rightarrow> int \<Rightarrow> 'a list \<Rightarrow> error + 'a" where
  "max_loop key maxitem maxval [] = Inr maxitem"
| "max_loop key maxitem maxval (x # xs) =
     (case key x of
        Inl e \<Rightarrow> Inl e
      | Inr v \<Rightarrow> if v > maxval then max_loop key x v xs else max_loop key maxitem maxval xs)"

definition py_max :: "('a \<Rightarrow> error + int) \<Rightarrow> 'a list \<Rightarrow> error + 'a" where
  "py_max key xs =
     (case xs of
        [] \<Rightarrow> Inl ValueError
      | x # rest \<Rightarrow> (case key x of Inl e \<Rightarrow> Inl e | Inr v \<Rightarrow> max_loop key x v rest))"

text \<open>\<open>sep.join(xs)\<close> on strings.\<close>

fun join :: "string \<Rightarrow> string list \<Rightarrow> string" where
  "join sep [] = []"
| "join sep [x] = x"
| "join sep (x # y # ys) = x @ sep @ join sep (y # ys)"

text \<open>\<open>sep.join(xs)\<close> on parsed values: an element that is not a string raises \<open>TypeError\<close>.\<close>

fun strings_of :: "json list \<Rightarrow> error + string list" where
  "strings_of [] = Inr []"
| "strings_of (JStr s # xs) = (case strings_of xs of Inl e \<Rightarrow> Inl e | Inr ss \<Rightarrow> Inr (s # ss))"
| "strings_of (_ # xs) = Inl TypeError"

definition str_join :: "string \<Rightarrow> json list \<Rightarrow> error + string" where
  "str_join sep xs = (case strings_of xs of Inl e \<Rightarrow> Inl e | Inr ss \<Rightarrow> Inr (join sep ss))"

text \<open>\<open>x[:50]\<close>: strings and lists can be sliced, nothing else that \<open>json.loads\<close> returns.\<close>

fun sliceable :: "json \<Rightarrow> bool" where
  "sliceable (JStr s) = True"
| "sliceable (JArr xs) = True"
| "sliceable _ = False"

section \<open>The review cycle\<close>

text \<open>
  The dictionary appended to \<open>issues\<close> (lines 141-151). The keys \<open>"paragraph"\<close>, \<open>"text"\<close>,
  \<open>"suggestion"\<close> and \<open>"issues"\<close> carry the suffix \<open>_field\<close> here.
\<close>

record suggestion =
  type :: string
  severity :: json
  paragraph_field :: json
  description :: string
  text_field :: json
  suggestion_field :: json
  originalText :: json
  replaceTo :: json
  issues_field :: json

text \<open>The dictionary appended to \<open>diagram_insertions\<close> (lines 164-169 and 333-338).\<close>

record diagram_insertion =
  insert_after_text :: json
  mermaid_syntax :: json
  diagram_type :: json
  title :: json

text \<open>
  \<open>response\<close> is the dictionary the review cycle serialises and yields. The state of
  the loop over \<open>function_calls\<close> is the two lists of the response, and the raw
  argument strings that the two \<open>except json.JSONDecodeError\<close> branches report with
  \<open>logger.error\<close>.
\<close>

record response =
  issues :: "suggestion list"
  diagram_insertions :: "diagram_insertion list"

record review_state = response +
  parse_failures :: "string list"

definition init_review :: review_state where
  "init_review = \<lparr>issues = [], diagram_insertions = [], parse_failures = []\<rparr>"

text \<open>
  Lines 132-151, run when \<open>text_issues\<close> is true: the three comprehensions, the maximum
  and the two joins, in the order in which the code evaluates them.
\<close>

definition merge_issues :: "(string, json) dict \<Rightarrow> json \<Rightarrow> error + suggestion" where
  "merge_issues args text_issues =
     (case iterate text_issues of Inl e \<Rightarrow> Inl e | Inr items \<Rightarrow>
      case collect ''type'' (JStr []) items of Inl e \<Rightarrow> Inl e | Inr types \<Rightarrow>
      case collect ''description'' (JStr []) items of Inl e \<Rightarrow> Inl e | Inr descriptions \<Rightarrow>
      case collect ''severity'' (JStr ''medium'') items of Inl e \<Rightarrow> Inl e | Inr severities \<Rightarrow>
      case py_max severity_order severities of Inl e \<Rightarrow> Inl e | Inr max_severity \<Rightarrow>
      case str_join '' & '' types of Inl e \<Rightarrow> Inl e | Inr merged_type \<Rightarrow>
      case str_join '' | '' descriptions of Inl e \<Rightarrow> Inl e | Inr merged_description \<Rightarrow>
        Inr \<lparr>type = merged_type,
             severity = max_severity,
             paragraph_field = get_default args ''paragraph'' (JInt 1),
             description = merged_description,
             text_field = get_default args ''originalText'' (JStr []),
             suggestion_field = get_default args ''replaceTo'' (JStr []),
             originalText = get_default args ''originalText'' (JStr []),
             replaceTo = get_default args ''replaceTo'' (JStr []),
             issues_field = text_issues\<rparr>)"

text \<open>
  Lines 119-127: the \<open>issues\<close> array of the arguments, or the one-element list built from
  the flat \<open>type\<close>, \<open>severity\<close>, \<open>description\<close> when that array is false and
  \<open>type\<close> is true.
\<close>

definition text_issues_of :: "(string, json) dict \<Rightarrow> json" where
  "text_issues_of args =
     (let text_issues = get_default args ''issues'' (JArr []) in
      if \<not> truthy text_issues \<and> truthy (get_default args ''type'' JNull) then
        JArr [JObj [(''type'', get_default args ''type'' (JStr [])),
                    (''severity'', get_default args ''severity'' (JStr ''medium'')),
                    (''description'', get_default args ''description'' (JStr []))]]
      else text_issues)"

text \<open>
  The branch \<open>func_call["name"] == "create_suggestion"\<close> (lines 114-157).
  \<open>except json.JSONDecodeError\<close> reports the raw arguments and continues; any other
  exception of \<open>json.loads\<close> leaves the loop. The first use of \<open>args\<close> is
  \<open>args.get\<close>, which raises \<open>AttributeError\<close> unless \<open>args\<close> is a dictionary.
\<close>

definition handle_create_suggestion ::
    "(string \<Rightarrow> error + json) \<Rightarrow> review_state \<Rightarrow> func_call \<Rightarrow> error + review_state" where
  "handle_create_suggestion loads st fc =
     (case loads (arguments fc) of
        Inl JSONDecodeError \<Rightarrow> Inr (st\<lparr>parse_failures := parse_failures st @ [arguments fc]\<rparr>)
      | Inl e \<Rightarrow> Inl e
      | Inr (JObj args) \<Rightarrow>
          (let text_issues = text_issues_of args in
           if truthy text_issues then
             (case merge_issues args text_issues of
                Inl e \<Rightarrow> Inl e
              | Inr issue \<Rightarrow> Inr (st\<lparr>issues := issues st @ [issue]\<rparr>))
           else Inr st)
      | Inr _ \<Rightarrow> Inl AttributeError)"

text \<open>
  The branch \<open>func_call["name"] == "insert_diagram"\<close> (lines 160-175), with the same
  \<open>except json.JSONDecodeError\<close> and nothing else caught. After the append,
  the log line slices \<open>args.get('insert_after_text', '')[:50]\<close>, which raises
  \<open>TypeError\<close> on a value that cannot be sliced (\<open>KeyError\<close> for a dictionary from
  Python 3.12 on; neither is caught).
\<close>

definition handle_insert_diagram ::
    "(string \<Rightarrow> error + json) \<Rightarrow> review_state \<Rightarrow> func_call \<Rightarrow> error + review_state" where
  "handle_insert_diagram loads st fc =
     (case loads (arguments fc) of
        Inl JSONDecodeError \<Rightarrow> Inr (st\<lparr>parse_failures := parse_failures st @ [arguments fc]\<rparr>)
      | Inl e \<Rightarrow> Inl e
      | Inr (JObj args) \<Rightarrow>
          (let diagram_insertion =
                 \<lparr>insert_after_text = get_default args ''insert_after_text'' (JStr []),
                  mermaid_syntax = get_default args ''mermaid_syntax'' (JStr []),
                  diagram_type = get_default args ''diagram_type'' (JStr ''flowchart''),
                  title = get_default args ''title'' (JStr [])\<rparr>
           in if sliceable (get_default args ''insert_after_text'' (JStr []))
              then Inr (st\<lparr>diagram_insertions := diagram_insertions st @ [diagram_insertion]\<rparr>)
              else Inl TypeError)
      | Inr _ \<Rightarrow> Inl AttributeError)"

text \<open>The body of \<open>for func_call in function_calls\<close> (lines 112-175).\<close>

definition process_call ::
    "(string \<Rightarrow> error + json) \<Rightarrow> review_state \<Rightarrow> func_call \<Rightarrow> error + review_state" where
  "process_call loads st fc =
     (if name fc = ''create_suggestion'' then handle_create_suggestion loads st fc
      else if name fc = ''insert_diagram'' then handle_insert_diagram loads st fc
      else Inr st)"

fun process_calls ::
    "(string \<Rightarrow> error + json) \<Rightarrow> review_state \<Rightarrow> func_call list \<Rightarrow> error + review_state" where
  "process_calls loads st [] = Inr st"
| "process_calls loads st (fc # fcs) =
     (case process_call loads st fc of
        Inl e \<Rightarrow> Inl e
      | Inr st' \<Rightarrow> process_calls loads st' fcs)"

text \<open>
  Both generators yield strings. A yielded string is tagged here by what it is: the text of a
  delta as it is; the fenced block \<open>"\n```mermaid\n" + str(v) + "\n```\n"\<close> around the
  value \<open>v\<close> of \<open>mermaid_syntax\<close>; \<open>"DIAGRAM_INSERT:"\<close> followed by the serialised
  insertion; and \<open>response_json\<close>, the serialised response of the review cycle.
\<close>

datatype yielded =
    Text string
  | Mermaid json
  | DiagramInsert diagram_insertion
  | ResponseJson response

text \<open>
  Lines 108-186: the loop over the completed invocations and what the generator yields after
  it (the response, which the code serialises with \<open>json.dumps\<close>), together with the
  exception that ends the generator, if any.
\<close>

definition review_calls ::
    "(string \<Rightarrow> error + json) \<Rightarrow> func_call list \<Rightarrow> yielded list \<times> error option" where
  "review_calls loads fcs =
     (case process_calls loads init_review fcs of
        Inl e \<Rightarrow> ([], Some e)
      | Inr st \<Rightarrow>
          ([ResponseJson \<lparr>issues = issues st, diagram_insertions = diagram_insertions st\<rparr>], None))"

text \<open>
  \<open>review_document_with_functions\<close> from the stream on. The text of a delta is only
  passed to \<open>logger.debug\<close> (lines 74-75).
\<close>

definition review_document_with_functions ::
    "(string \<Rightarrow> error + json) \<Rightarrow> delta list \<Rightarrow> yielded list \<times> error option" where
  "review_document_with_functions loads stream = review_calls loads (aggregate stream)"

section \<open>The chat cycle with document context\<close>

text \<open>
  The body of \<open>async for chunk in stream\<close> (lines 286-310): the text is yielded first,
  then the fragments are folded into the two dictionaries exactly as in the review cycle.
\<close>

definition chat_delta_step :: "yielded list \<times> agg_state \<Rightarrow> delta \<Rightarrow> yielded list \<times> agg_state" where
  "chat_delta_step s d =
     ((if str_truthy (content d) then fst s @ [Text (or_empty (content d))] else fst s),
      delta_step (snd s) d)"

text \<open>The body of the second loop (lines 317-343): what one completed invocation yields.\<close>

definition chat_call :: "(string \<Rightarrow> error + json) \<Rightarrow> func_call \<Rightarrow> error + yielded list" where
  "chat_call loads fc =
     (if name fc = ''create_diagram'' then
        (case loads (arguments fc) of
           Inl JSONDecodeError \<Rightarrow> Inr []
         | Inl e \<Rightarrow> Inl e
         | Inr args \<Rightarrow>
             (case json_get args ''mermaid_syntax'' (JStr []) of
                Inl e \<Rightarrow> Inl e
              | Inr v \<Rightarrow> Inr [Mermaid v]))
      else if name fc = ''insert_diagram'' then
        (case loads (arguments fc) of
           Inl JSONDecodeError \<Rightarrow> Inr []
         | Inl e \<Rightarrow> Inl e
         | Inr (JObj args) \<Rightarrow>
             Inr [DiagramInsert
                    \<lparr>insert_after_text = get_default args ''insert_after_text'' (JStr []),
                     mermaid_syntax = get_default args ''mermaid_syntax'' (JStr []),
                     diagram_type = get_default args ''diagram_type'' (JStr ''flowchart''),
                     title = get_default args ''title'' (JStr [])\<rparr>]
         | Inr _ \<Rightarrow> Inl AttributeError)
      else Inr [])"

fun chat_calls :: "(string \<Rightarrow> error + json) \<Rightarrow> func_call list \<Rightarrow> yielded list \<times> error option" where
  "chat_calls loads [] = ([], None)"
| "chat_calls loads (fc # fcs) =
     (case chat_call loads fc of
        Inl e \<Rightarrow> ([], Some e)
      | Inr ys \<Rightarrow> (ys @ fst (chat_calls loads fcs), snd (chat_calls loads fcs)))"

text \<open>
  \<open>chat_with_document_context\<close> from the stream on: everything the generator yields, in
  order, and the exception that ends it, if any.
\<close>

definition chat_with_document_context ::
    "(string \<Rightarrow> error + json) \<Rightarrow> delta list \<Rightarrow> yielded list \<times> error option" where
  "chat_with_document_context loads stream =
     (let s = foldl chat_delta_step ([], init_state) stream;
          r = chat_calls loads (finalize (snd s))
      in (fst s @ fst r, snd r))"

text \<open>The text of a stream: the non-empty \<open>delta.content\<close> values in arrival order.\<close>

definition stream_text :: "delta list \<Rightarrow> string list" where
  "stream_text stream = map (\<lambda>d. or_empty (content d)) (filter (\<lambda>d. str_truthy (content d)) stream)"

section \<open>Issues as the data model has them\<close>

text \<open>
  An Issue of the data model is an object whose \<open>type\<close> and \<open>description\<close> are
  strings and whose \<open>severity\<close> is one of high, medium, low. The three readers below are
  \<open>issue.get("type", "")\<close>, \<open>issue.get("description", "")\<close> and
  \<open>issue.get("severity", "medium")\<close> on such an object.
\<close>

fun is_str :: "json \<Rightarrow> bool" where
  "is_str (JStr s) = True"
| "is_str _ = False"

fun the_str :: "json \<Rightarrow> string" where
  "the_str (JStr s) = s"
| "the_str _ = []"

fun is_obj :: "json \<Rightarrow> bool" where
  "is_obj (JObj kv) = True"
| "is_obj _ = False"

fun fields :: "json \<Rightarrow> (string, json) dict" where
  "fields (JObj kv) = kv"
| "fields _ = []"

definition issue_type :: "json \<Rightarrow> json" where
  "issue_type item = get_default (fields item) ''type'' (JStr [])"

definition issue_description :: "json \<Rightarrow> json" where
  "issue_description item = get_default (fields item) ''description'' (JStr [])"

definition issue_severity :: "json \<Rightarrow> json" where
  "issue_severity item = get_default (fields item) ''severity'' (JStr ''medium'')"

definition is_issue :: "json \<Rightarrow> bool" where
  "is_issue item =
     (is_obj item \<and> is_str (issue_type item) \<and> is_str (issue_description item) \<and>
      issue_severity item \<in> {JStr ''high'', JStr ''medium'', JStr ''low''})"

text \<open>The weights of the specification: high 3, medium 2, low 1.\<close>

definition spec_weight :: "json \<Rightarrow> int" where
  "spec_weight sev =
     (if sev = JStr ''high'' then 3 else if sev = JStr ''medium'' then 2
      else if sev = JStr ''low'' then 1 else 0)"

text \<open>The object \<open>{"type": t, "severity": s, "description": d}\<close>.\<close>

definition issue_obj :: "string \<Rightarrow> string \<Rightarrow> string \<Rightarrow> json" where
  "issue_obj t s d = JObj [(''type'', JStr t), (''severity'', JStr s), (''description'', JStr d)]"

text \<open>
  Strings put one after the other with \<open>sep\<close> between neighbours: the first string,
  then \<open>sep\<close> and the next string for each of the others.
\<close>

definition separated :: "string \<Rightarrow> string list \<Rightarrow> string" where
  "separated sep xs =
     (case xs of [] \<Rightarrow> [] | x # rest \<Rightarrow> x @ concat (map (\<lambda>y. sep @ y) rest))"

text \<open>
  The suggestion the merger is expected to build from the Issues \<open>items\<close> of the
  arguments \<open>args\<close>, with \<open>sev\<close> as its severity.
\<close>

definition merged_suggestion :: "(string, json) dict \<Rightarrow> json list \<Rightarrow> json \<Rightarrow> suggestion" where
  "merged_suggestion args items sev =
     \<lparr>type = separated '' & '' (map (\<lambda>item. the_str (issue_type item)) items),
      severity = sev,
      paragraph_field = get_default args ''paragraph'' (JInt 1),
      description = separated '' | '' (map (\<lambda>item. the_str (issue_description item)) items),
      text_field = get_default args ''originalText'' (JStr []),
      suggestion_field = get_default args ''replaceTo'' (JStr []),
      originalText = get_default args ''originalText'' (JStr []),
      replaceTo = get_default args ''replaceTo'' (JStr []),
      issues_field = JArr items\<rparr>"

text \<open>A text of 5000 opening brackets: nesting far beyond the recursion limit.\<close>

definition deep_text :: string where
  "deep_text = replicate 5000 (CHR ''['')"

text \<open>
  What \<open>json.loads\<close> does on the argument texts of the examples below: the parsed value,
  \<open>JSONDecodeError\<close> on the text \<open>{"issues": [\<close>, which is cut short, and
  \<open>RecursionError\<close> on \<open>deep_text\<close> (CPython 3.11, default recursion limit).
\<close>

definition loads_sample :: "string \<Rightarrow> error + json" where
  \<open>loads_sample s =
     (if s = ''{"type": "Ambiguity", "severity": "low", "description": "d"}'' then
        Inr (JObj [(''type'', JStr ''Ambiguity''), (''severity'', JStr ''low''),
                   (''description'', JStr ''d'')])
      else if s = ''{"type": "", "severity": "low", "description": "d"}'' then
        Inr (JObj [(''type'', JStr []), (''severity'', JStr ''low''),
                   (''description'', JStr ''d'')])
      else if s = ''{"originalText": "a", "replaceTo": "b", "issues": [{"type": "Structure", "severity": "high", "description": "d"}]}'' then
        Inr (JObj [(''originalText'', JStr ''a''), (''replaceTo'', JStr ''b''),
                   (''issues'', JArr [JObj [(''type'', JStr ''Structure''),
                                            (''severity'', JStr ''high''),
                                            (''description'', JStr ''d'')]])])
      else if s = ''{"originalText": "a", "replaceTo": "b", "issues": []}'' then
        Inr (JObj [(''originalText'', JStr ''a''), (''replaceTo'', JStr ''b''),
                   (''issues'', JArr [])])
      else if s = ''{"insert_after_text": "claim 1", "mermaid_syntax": "graph TD"}'' then
        Inr (JObj [(''insert_after_text'', JStr ''claim 1''), (''mermaid_syntax'', JStr ''graph TD'')])
      else if s = ''{"insert_after_text": 5}'' then
        Inr (JObj [(''insert_after_text'', JInt 5)])
      else if s = ''{"issues": ['' then Inl JSONDecodeError
      else if s = deep_text then Inl RecursionError
      else Inl JSONDecodeError)\<close>

text \<open>Two states of the review loop that hold the same response.\<close>

definition same_response :: "review_state \<Rightarrow> review_state \<Rightarrow> bool" where
  "same_response st st' = (issues st = issues st' \<and> diagram_insertions st = diagram_insertions st')"

text \<open>
  The pending invocations a stream leaves when no slot is reused: one entry per opening
  fragment, holding all the argument text of its slot.
\<close>

definition expected_pending :: "tool_call list \<Rightarrow> (int, func_call) dict" where
  "expected_pending tcs =
     map (\<lambda>tc. (index tc, \<lparr>name = or_empty (function_name tc), arguments = slot_chunks tcs (index tc)\<rparr>))
       (opening_fragments tcs)"

text \<open>The text among the yielded strings, in order.\<close>

fun texts_of :: "yielded list \<Rightarrow> string list" where
  "texts_of [] = []"
| "texts_of (Text s # ys) = s # texts_of ys"
| "texts_of (_ # ys) = texts_of ys"

text \<open>
  Example invocations and streams. The argument texts are cut into fragments at arbitrary
  places, as a provider does.
\<close>

definition legacy_call :: func_call where
  \<open>legacy_call = \<lparr>name = ''create_suggestion'',
     arguments = ''{"type": "Ambiguity", "severity": "low", "description": "d"}''\<rparr>\<close>

definition legacy_stream :: "delta list" where
  \<open>legacy_stream =
     [\<lparr>content = None, tool_calls = Some
         [\<lparr>index = 0, function_name = Some ''create_suggestion'',
           function_arguments = Some ''{"type": "Ambiguity", ''\<rparr>]\<rparr>,
      \<lparr>content = None, tool_calls = Some
         [chunk_fragment 0 ''"severity": "low", "description": "d"}'']\<rparr>]\<close>





definition diagram_call :: func_call where
  \<open>diagram_call = \<lparr>name = ''insert_diagram'',
     arguments = ''{"insert_after_text": "claim 1", "mermaid_syntax": "graph TD"}''\<rparr>\<close>

definition diagram_stream :: "delta list" where
  \<open>diagram_stream =
     [\<lparr>content = Some ''Adding a diagram.'', tool_calls = Some
         [\<lparr>index = 0, function_name = Some ''insert_diagram'', function_arguments = Some []\<rparr>]\<rparr>,
      \<lparr>content = None, tool_calls = Some
         [chunk_fragment 0 ''{"insert_after_text": "claim 1", '',
          chunk_fragment 0 ''"mermaid_syntax": "graph TD"}'']\<rparr>]\<close>

definition empty_call :: func_call where
  \<open>empty_call = \<lparr>name = ''create_suggestion'',
     arguments = ''{"originalText": "a", "replaceTo": "b", "issues": []}''\<rparr>\<close>

definition empty_type_call :: func_call where
  \<open>empty_type_call = \<lparr>name = ''create_suggestion'',
     arguments = ''{"type": "", "severity": "low", "description": "d"}''\<rparr>\<close>

definition empty_type_stream :: "delta list" where
  \<open>empty_type_stream =
     [\<lparr>content = None, tool_calls = Some
         [\<lparr>index = 0, function_name = Some ''create_suggestion'',
           function_arguments = Some ''{"type": "", "severity": "low", "description": "d"}''\<rparr>]\<rparr>]\<close>


definition number_anchor_stream :: "delta list" where
  \<open>number_anchor_stream =
     [\<lparr>content = None, tool_calls = Some
         [\<lparr>index = 0, function_name = Some ''insert_diagram'',
           function_arguments = Some ''{"insert_after_text": 5}''\<rparr>]\<rparr>]\<close>

section \<open>Basic facts about the loop\<close>

lemma foldl_delta_step:
  "foldl delta_step st stream = foldl tool_call_step st (fragments stream)"
  by (induction stream arbitrary: st) (simp_all add: fragments_def delta_step_def)

lemma aggregate_fragments:
  "aggregate stream = finalize (foldl tool_call_step init_state (fragments stream))"
  by (simp add: aggregate_def foldl_delta_step)

lemma dict_get_set_same: "dict_get (dict_set d k v) k = Some v"
  by (induction d) auto

lemma dict_get_set_other: "k' \<noteq> k \<Longrightarrow> dict_get (dict_set d k v) k' = dict_get d k'"
  by (induction d) auto

lemma dict_keys_set:
  "dict_keys (dict_set d k v) = (if k \<in> set (dict_keys d) then dict_keys d else dict_keys d @ [k])"
  by (induction d) (force simp: dict_keys_def)+

lemma dict_get_None_iff: "dict_get d k = None \<longleftrightarrow> k \<notin> set (dict_keys d)"
  by (induction d) (force simp: dict_keys_def)+

lemma dict_set_absent: "k \<notin> set (dict_keys d) \<Longrightarrow> dict_set d k v = d @ [(k, v)]"
  by (induction d) (auto simp: dict_keys_def)

lemma dict_set_modify:
  "distinct (dict_keys d) \<Longrightarrow> dict_get d k = Some cur \<Longrightarrow>
     dict_set d k (f cur) = map (\<lambda>p. if fst p = k then (fst p, f (snd p)) else p) d"
proof (induction d)
  case Nil
  then show ?case by simp
next
  case (Cons p d)
  show ?case
  proof (cases "fst p = k")
    case True
    with Cons.prems have "k \<notin> fst ` set d" by (auto simp: dict_keys_def)
    then have "map (\<lambda>p. if fst p = k then (fst p, f (snd p)) else p) d = d"
      by (induction d) auto
    with True Cons.prems show ?thesis by (cases p) auto
  next
    case False
    with Cons show ?thesis by (cases p) (auto simp: dict_keys_def)
  qed
qed

lemma map_modify_absent:
  "k \<notin> set (dict_keys d) \<Longrightarrow> map (\<lambda>p. if fst p = k then (fst p, f (snd p)) else p) d = d"
  by (induction d) (auto simp: dict_keys_def)

section \<open>Slot reuse\<close>

text \<open>
  C1. A fragment with a non-empty name that arrives for a slot holding a pending invocation
  appends the previous occupant to the completed invocations and then starts the new one.
  For every stream whose fragments are, in order, (slot 0, name A), (slot 0, chunk "x"),
  (slot 0, name B), (slot 0, chunk "y"), however they are grouped into deltas, the completed
  invocations are exactly A with arguments "x", then B with arguments "y".
\<close>

theorem slot_reuse:
  "(str_truthy (function_name tc) \<and> dict_get (current_function_calls st) (index tc) = Some old \<longrightarrow>
      function_calls (tool_call_step st tc) = function_calls st @ [old] \<and>
      dict_get (current_function_calls (tool_call_step st tc)) (index tc) =
        Some \<lparr>name = or_empty (function_name tc), arguments = or_empty (function_arguments tc)\<rparr>)
   \<and> (A \<noteq> [] \<and> B \<noteq> [] \<and>
        fragments stream = [named_fragment 0 A, chunk_fragment 0 ''x'',
                            named_fragment 0 B, chunk_fragment 0 ''y''] \<longrightarrow>
        aggregate stream = [\<lparr>name = A, arguments = ''x''\<rparr>, \<lparr>name = B, arguments = ''y''\<rparr>])"
proof (intro conjI impI)
  assume h: "str_truthy (function_name tc) \<and> dict_get (current_function_calls st) (index tc) = Some old"
  then show "function_calls (tool_call_step st tc) = function_calls st @ [old]"
    by (simp add: tool_call_step_def Let_def)
  from h show "dict_get (current_function_calls (tool_call_step st tc)) (index tc) =
        Some \<lparr>name = or_empty (function_name tc), arguments = or_empty (function_arguments tc)\<rparr>"
    by (simp add: tool_call_step_def Let_def dict_get_set_same)
next
  assume h: "A \<noteq> [] \<and> B \<noteq> [] \<and>
        fragments stream = [named_fragment 0 A, chunk_fragment 0 ''x'',
                            named_fragment 0 B, chunk_fragment 0 ''y'']"
  then show "aggregate stream = [\<lparr>name = A, arguments = ''x''\<rparr>, \<lparr>name = B, arguments = ''y''\<rparr>]"
    by (simp add: aggregate_fragments tool_call_step_def Let_def init_state_def finalize_def
        dict_values_def named_fragment_def chunk_fragment_def)
qed

theorem slot_reuse_witness:
  "function_calls (tool_call_step
       \<lparr>function_calls = [], current_function_calls = [(0, \<lparr>name = ''A'', arguments = ''x''\<rparr>)]\<rparr>
       (named_fragment 0 ''B'')) = [\<lparr>name = ''A'', arguments = ''x''\<rparr>]
   \<and> aggregate [\<lparr>content = None, tool_calls = Some [named_fragment 0 ''A'']\<rparr>,
                \<lparr>content = Some ''hi'', tool_calls = Some [chunk_fragment 0 ''x'', named_fragment 0 ''B'']\<rparr>,
                \<lparr>content = None, tool_calls = None\<rparr>,
                \<lparr>content = None, tool_calls = Some [chunk_fragment 0 ''y'']\<rparr>]
       = [\<lparr>name = ''A'', arguments = ''x''\<rparr>, \<lparr>name = ''B'', arguments = ''y''\<rparr>]"
  using slot_reuse [of "named_fragment 0 ''B''"
      "\<lparr>function_calls = [], current_function_calls = [(0, \<lparr>name = ''A'', arguments = ''x''\<rparr>)]\<rparr>"
      "\<lparr>name = ''A'', arguments = ''x''\<rparr>" "''A''" "''B''"
      "[\<lparr>content = None, tool_calls = Some [named_fragment 0 ''A'']\<rparr>,
                \<lparr>content = Some ''hi'', tool_calls = Some [chunk_fragment 0 ''x'', named_fragment 0 ''B'']\<rparr>,
                \<lparr>content = None, tool_calls = None\<rparr>,
                \<lparr>content = None, tool_calls = Some [chunk_fragment 0 ''y'']\<rparr>]"]
  by (simp add: fragments_def named_fragment_def chunk_fragment_def)

section \<open>Per-slot aggregation\<close>

lemma fresh_from_snoc:
  "fresh_from seen (tcs @ [tc]) =
     (fresh_from seen tcs \<and>
      (\<not> str_truthy (function_name tc) \<or> index tc \<notin> set seen \<union> index ` set tcs))"
  by (induction tcs arbitrary: seen) auto

lemma fresh_from_distinct:
  "fresh_from seen tcs \<Longrightarrow>
     distinct (map index (opening_fragments tcs)) \<and>
     set (map index (opening_fragments tcs)) \<inter> set seen = {}"
proof (induction tcs arbitrary: seen)
  case Nil
  then show ?case by (simp add: opening_fragments_def)
next
  case (Cons tc tcs)
  from Cons.prems have f: "fresh_from (index tc # seen) tcs" by simp
  from Cons.IH [OF f] have d: "distinct (map index (opening_fragments tcs))"
    and i: "set (map index (opening_fragments tcs)) \<inter> set (index tc # seen) = {}" by simp_all
  from Cons.prems have n: "\<not> str_truthy (function_name tc) \<or> index tc \<notin> set seen" by simp
  show ?case using d i n by (auto simp: opening_fragments_def)
qed

text \<open>
  What \<open>fresh_from\<close> says, by positions: a fragment with a non-empty name carries a
  slot that is not in \<open>seen\<close> and that no earlier fragment carries.
\<close>

lemma fresh_from_nth:
  "fresh_from seen tcs \<longleftrightarrow>
     (\<forall>i < length tcs. str_truthy (function_name (tcs ! i)) \<longrightarrow>
        index (tcs ! i) \<notin> set seen \<and> (\<forall>j < i. index (tcs ! j) \<noteq> index (tcs ! i)))"
proof (induction tcs arbitrary: seen rule: rev_induct)
  case Nil
  then show ?case by simp
next
  case (snoc tc tcs)
  have "(\<forall>i < length (tcs @ [tc]). str_truthy (function_name ((tcs @ [tc]) ! i)) \<longrightarrow>
        index ((tcs @ [tc]) ! i) \<notin> set seen \<and> (\<forall>j < i. index ((tcs @ [tc]) ! j) \<noteq> index ((tcs @ [tc]) ! i)))
     \<longleftrightarrow>
      (\<forall>i < length tcs. str_truthy (function_name (tcs ! i)) \<longrightarrow>
        index (tcs ! i) \<notin> set seen \<and> (\<forall>j < i. index (tcs ! j) \<noteq> index (tcs ! i))) \<and>
      (str_truthy (function_name tc) \<longrightarrow>
        index tc \<notin> set seen \<and> (\<forall>j < length tcs. index (tcs ! j) \<noteq> index tc))"
    by (auto simp: nth_append less_Suc_eq)
  moreover have "(\<forall>j < length tcs. index (tcs ! j) \<noteq> index tc) \<longleftrightarrow> index tc \<notin> index ` set tcs"
    by (metis (no_types, lifting) image_iff in_set_conv_nth)
  ultimately show ?case
    using snoc.IH [of seen] by (auto simp: fresh_from_snoc)
qed

lemma keys_expected: "dict_keys (expected_pending tcs) = map index (opening_fragments tcs)"
  by (simp add: expected_pending_def dict_keys_def comp_def)

lemma slot_chunks_snoc:
  "slot_chunks (tcs @ [tc]) s =
     (if index tc = s then slot_chunks tcs s @ or_empty (function_arguments tc) else slot_chunks tcs s)"
  by (simp add: slot_chunks_def)

lemma slot_chunks_unseen: "s \<notin> index ` set tcs \<Longrightarrow> slot_chunks tcs s = []"
  by (induction tcs) (auto simp: slot_chunks_def)

lemma expected_snoc_named:
  assumes "str_truthy (function_name tc)" "index tc \<notin> index ` set tcs"
  shows "expected_pending (tcs @ [tc]) =
           expected_pending tcs @
           [(index tc, \<lparr>name = or_empty (function_name tc), arguments = or_empty (function_arguments tc)\<rparr>)]"
proof -
  have "\<forall>x \<in> set (opening_fragments tcs). index x \<noteq> index tc"
  proof
    fix x assume "x \<in> set (opening_fragments tcs)"
    then have "index x \<in> index ` set tcs" by (simp add: opening_fragments_def)
    with assms(2) show "index x \<noteq> index tc" by auto
  qed
  then have "map (\<lambda>x. (index x, \<lparr>name = or_empty (function_name x), arguments = slot_chunks (tcs @ [tc]) (index x)\<rparr>))
               (opening_fragments tcs) = expected_pending tcs"
    by (auto simp: expected_pending_def slot_chunks_snoc)
  moreover have "slot_chunks (tcs @ [tc]) (index tc) = or_empty (function_arguments tc)"
    using assms(2) by (simp add: slot_chunks_snoc slot_chunks_unseen)
  ultimately show ?thesis
    using assms(1) by (simp add: expected_pending_def opening_fragments_def)
qed

lemma expected_snoc_chunk:
  assumes "\<not> str_truthy (function_name tc)"
  shows "expected_pending (tcs @ [tc]) =
           map (\<lambda>p. if fst p = index tc
                     then (fst p, (snd p)\<lparr>arguments := arguments (snd p) @ or_empty (function_arguments tc)\<rparr>)
                     else p) (expected_pending tcs)"
  using assms by (auto simp: expected_pending_def opening_fragments_def slot_chunks_snoc)

lemma step_named:
  assumes "str_truthy (function_name tc)" "k = index tc" "k \<notin> set (dict_keys d)"
  shows "tool_call_step \<lparr>function_calls = cs, current_function_calls = d\<rparr> tc =
           \<lparr>function_calls = cs,
            current_function_calls =
              d @ [(k, \<lparr>name = or_empty (function_name tc), arguments = or_empty (function_arguments tc)\<rparr>)]\<rparr>"
proof -
  from assms(3) have "dict_get d k = None" by (simp add: dict_get_None_iff)
  with assms show ?thesis
    by (simp add: tool_call_step_def Let_def dict_set_absent)
qed

lemma step_chunk:
  assumes "\<not> str_truthy (function_name tc)" "distinct (dict_keys d)"
  shows "tool_call_step \<lparr>function_calls = cs, current_function_calls = d\<rparr> tc =
           \<lparr>function_calls = cs,
            current_function_calls =
              map (\<lambda>p. if fst p = index tc
                        then (fst p, (snd p)\<lparr>arguments := arguments (snd p) @ or_empty (function_arguments tc)\<rparr>)
                        else p) d\<rparr>"
proof (cases "dict_get d (index tc)")
  case None
  then have "index tc \<notin> set (dict_keys d)" by (simp add: dict_get_None_iff)
  then show ?thesis
    using assms(1) None
      map_modify_absent [of "index tc" d "\<lambda>c. c\<lparr>arguments := arguments c @ or_empty (function_arguments tc)\<rparr>"]
    by (simp add: tool_call_step_def Let_def)
next
  case (Some cur)
  show ?thesis
    using assms(1) Some
      dict_set_modify [OF assms(2) Some, of "\<lambda>c. c\<lparr>arguments := arguments c @ or_empty (function_arguments tc)\<rparr>"]
    by (simp add: tool_call_step_def Let_def)
qed

lemma fresh_run:
  "fresh_from [] tcs \<Longrightarrow>
     foldl tool_call_step init_state tcs =
       \<lparr>function_calls = [], current_function_calls = expected_pending tcs\<rparr>"
proof (induction tcs rule: rev_induct)
  case Nil
  then show ?case by (simp add: init_state_def expected_pending_def opening_fragments_def)
next
  case (snoc tc tcs)
  from snoc.prems have f: "fresh_from [] tcs"
    and n: "\<not> str_truthy (function_name tc) \<or> index tc \<notin> index ` set tcs"
    by (simp_all add: fresh_from_snoc)
  have st: "foldl tool_call_step init_state (tcs @ [tc]) =
              tool_call_step \<lparr>function_calls = [], current_function_calls = expected_pending tcs\<rparr> tc"
    using snoc.IH [OF f] by simp
  have d: "distinct (dict_keys (expected_pending tcs))"
    using fresh_from_distinct [OF f] by (simp add: keys_expected)
  show ?case
  proof (cases "str_truthy (function_name tc)")
    case True
    with n have u: "index tc \<notin> index ` set tcs" by simp
    then have k: "index tc \<notin> set (dict_keys (expected_pending tcs))"
      by (force simp: keys_expected opening_fragments_def)
    show ?thesis
      unfolding st step_named [OF True refl k] expected_snoc_named [OF True u] ..
  next
    case False
    show ?thesis
      unfolding st step_chunk [OF False d] expected_snoc_chunk [OF False] ..
  qed
qed

text \<open>
  C2, as stated: with every name-carrying fragment on a slot not seen before, there is exactly
  one completed invocation per distinct slot of the stream. A stream whose only fragment is a
  piece of argument text for slot 5, with no name, satisfies the hypothesis and mentions one
  slot, and no invocation is completed: the branch
  \<open>elif call_index in current_function_calls\<close> drops a nameless fragment whose slot
  is not pending.
\<close>

theorem per_slot_aggregation_counterexample:
  "names_use_fresh_slots (fragments [\<lparr>content = None, tool_calls = Some [chunk_fragment 5 ''x'']\<rparr>])
   \<and> remdups (map index (fragments [\<lparr>content = None, tool_calls = Some [chunk_fragment 5 ''x'']\<rparr>])) = [5]
   \<and> aggregate [\<lparr>content = None, tool_calls = Some [chunk_fragment 5 ''x'']\<rparr>] = []"
  by (simp add: names_use_fresh_slots_def fragments_def chunk_fragment_def aggregate_def
      delta_step_def tool_call_step_def Let_def init_state_def finalize_def dict_values_def)

text \<open>
  C2, amended. For every stream in which each fragment with a non-empty name uses a slot that
  no earlier fragment carries, the completed invocations are, in order, one for each fragment
  that opens a slot; these slots are pairwise distinct, so there is exactly one invocation per
  opened slot, and none for a slot that only nameless fragments mention. The arguments of each
  invocation are the concatenation, in arrival order, of all argument text delivered for its slot.
\<close>

theorem per_slot_aggregation:
  assumes "names_use_fresh_slots (fragments stream)"
  shows "aggregate stream =
           map (\<lambda>tc. \<lparr>name = or_empty (function_name tc),
                       arguments = slot_chunks (fragments stream) (index tc)\<rparr>)
             (opening_fragments (fragments stream))
         \<and> distinct (map index (opening_fragments (fragments stream)))"
proof -
  from assms have f: "fresh_from [] (fragments stream)" by (simp add: names_use_fresh_slots_def)
  show ?thesis
    using fresh_run [OF f] fresh_from_distinct [OF f]
    by (simp add: aggregate_fragments finalize_def dict_values_def expected_pending_def comp_def)
qed

theorem per_slot_aggregation_witness:
  "names_use_fresh_slots (fragments
     [\<lparr>content = None, tool_calls = Some
         [\<lparr>index = 0, function_name = Some ''f'', function_arguments = Some ''a''\<rparr>,
          named_fragment 1 ''g'']\<rparr>,
      \<lparr>content = Some ''t'', tool_calls = Some [chunk_fragment 0 ''b'', chunk_fragment 1 ''c'']\<rparr>,
      \<lparr>content = None, tool_calls = Some [chunk_fragment 0 ''d'', chunk_fragment 7 ''e'']\<rparr>])
   \<and> aggregate
     [\<lparr>content = None, tool_calls = Some
         [\<lparr>index = 0, function_name = Some ''f'', function_arguments = Some ''a''\<rparr>,
          named_fragment 1 ''g'']\<rparr>,
      \<lparr>content = Some ''t'', tool_calls = Some [chunk_fragment 0 ''b'', chunk_fragment 1 ''c'']\<rparr>,
      \<lparr>content = None, tool_calls = Some [chunk_fragment 0 ''d'', chunk_fragment 7 ''e'']\<rparr>]
     = [\<lparr>name = ''f'', arguments = ''abd''\<rparr>, \<lparr>name = ''g'', arguments = ''c''\<rparr>]"
  using per_slot_aggregation [of
     "[\<lparr>content = None, tool_calls = Some
         [\<lparr>index = 0, function_name = Some ''f'', function_arguments = Some ''a''\<rparr>,
          named_fragment 1 ''g'']\<rparr>,
      \<lparr>content = Some ''t'', tool_calls = Some [chunk_fragment 0 ''b'', chunk_fragment 1 ''c'']\<rparr>,
      \<lparr>content = None, tool_calls = Some [chunk_fragment 0 ''d'', chunk_fragment 7 ''e'']\<rparr>]"]
  by (simp add: names_use_fresh_slots_def fragments_def chunk_fragment_def named_fragment_def
      opening_fragments_def slot_chunks_def)

section \<open>Order of finalization at the end of the stream\<close>

lemma keys_tool_call_step:
  "dict_keys (current_function_calls (tool_call_step st tc)) =
     (if str_truthy (function_name tc) \<and> index tc \<notin> set (dict_keys (current_function_calls st))
      then dict_keys (current_function_calls st) @ [index tc]
      else dict_keys (current_function_calls st))"
proof (cases "dict_get (current_function_calls st) (index tc)")
  case None
  then show ?thesis
    using dict_get_None_iff [of "current_function_calls st" "index tc"]
    by (simp add: tool_call_step_def Let_def dict_keys_set)
next
  case (Some cur)
  then have "index tc \<in> set (dict_keys (current_function_calls st))"
    using dict_get_None_iff [of "current_function_calls st" "index tc"] by simp
  with Some show ?thesis
    by (simp add: tool_call_step_def Let_def dict_keys_set)
qed

lemma keys_foldl:
  "dict_keys (current_function_calls (foldl tool_call_step st tcs)) =
     opened_slots (dict_keys (current_function_calls st)) tcs"
  by (induction tcs arbitrary: st) (simp_all add: keys_tool_call_step)

lemma chat_loop_state:
  "snd (foldl chat_delta_step s stream) = foldl delta_step (snd s) stream"
  by (induction stream arbitrary: s) (simp_all add: chat_delta_step_def)

lemma chat_loop_text:
  "fst (foldl chat_delta_step s stream) = fst s @ map Text (stream_text stream)"
  by (induction stream arbitrary: s) (simp_all add: chat_delta_step_def stream_text_def)

text \<open>
  C3, as stated: the slots pending at the end of the stream are finalized in ascending slot
  order however they were opened. A stream that opens slot 1 (name A) and then slot 0 (name B)
  completes A before B: the loop over \<open>current_function_calls.items()\<close> follows the
  insertion order of the dictionary, which is [1, 0] here.
\<close>

theorem finalization_order_counterexample:
  "aggregate [\<lparr>content = None, tool_calls = Some [named_fragment 1 ''A'', named_fragment 0 ''B'']\<rparr>]
     = [\<lparr>name = ''A'', arguments = []\<rparr>, \<lparr>name = ''B'', arguments = []\<rparr>]
   \<and> dict_keys (current_function_calls (foldl delta_step init_state
        [\<lparr>content = None, tool_calls = Some [named_fragment 1 ''A'', named_fragment 0 ''B'']\<rparr>]))
     = [1, 0]
   \<and> \<not> sorted (dict_keys (current_function_calls (foldl delta_step init_state
        [\<lparr>content = None, tool_calls = Some [named_fragment 1 ''A'', named_fragment 0 ''B'']\<rparr>])))"
  by (simp add: aggregate_def finalize_def dict_values_def dict_keys_def delta_step_def
      tool_call_step_def Let_def init_state_def named_fragment_def)

text \<open>
  C3, amended. For every stream, the completed invocations are those closed by slot reuse
  followed by all invocations still pending at the end of the stream, and the pending ones are
  finalized in the order in which their slots were first opened in the stream. The chat cycle
  with document context completes the same invocations in the same order.
\<close>

theorem finalization_order:
  "aggregate stream =
     function_calls (foldl delta_step init_state stream) @
     map snd (current_function_calls (foldl delta_step init_state stream))
   \<and> map fst (current_function_calls (foldl delta_step init_state stream)) =
       opened_slots [] (fragments stream)
   \<and> finalize (snd (foldl chat_delta_step ([], init_state) stream)) = aggregate stream"
  using keys_foldl [of init_state "fragments stream"]
  by (simp add: aggregate_def finalize_def dict_values_def dict_keys_def foldl_delta_step
      chat_loop_state init_state_def)

section \<open>The merger\<close>

lemma collect_objects:
  "\<forall>item \<in> set items. is_obj item \<Longrightarrow>
     collect k dflt items = Inr (map (\<lambda>item. get_default (fields item) k dflt) items)"
proof (induction items)
  case Nil
  then show ?case by simp
next
  case (Cons item items)
  then obtain kv where "item = JObj kv" by (cases item) auto
  with Cons show ?case by simp
qed

lemma strings_of_strs:
  "\<forall>v \<in> set vs. is_str v \<Longrightarrow> strings_of vs = Inr (map the_str vs)"
proof (induction vs)
  case Nil
  then show ?case by simp
next
  case (Cons v vs)
  then obtain s where "v = JStr s" by (cases v) auto
  with Cons show ?case by simp
qed

lemma max_loop_first:
  assumes "\<forall>x \<in> set xs. key x = Inr (w x)"
  shows "\<exists>r. max_loop key m mv xs = Inr r \<and>
           ((r = m \<and> (\<forall>x \<in> set xs. w x \<le> mv)) \<or>
            (\<exists>i < length xs. r = xs ! i \<and> mv < w (xs ! i) \<and>
               (\<forall>j < length xs. w (xs ! j) \<le> w (xs ! i)) \<and>
               (\<forall>j < i. w (xs ! j) < w (xs ! i))))"
  using assms
proof (induction xs arbitrary: m mv)
  case Nil
  then show ?case by simp
next
  case (Cons x xs)
  from Cons.prems have kx: "key x = Inr (w x)" and rest: "\<forall>y \<in> set xs. key y = Inr (w y)"
    by simp_all
  show ?case
  proof (cases "mv < w x")
    case True
    from Cons.IH [OF rest, of x "w x"] obtain r where
      r: "max_loop key x (w x) xs = Inr r"
      and d: "(r = x \<and> (\<forall>y \<in> set xs. w y \<le> w x)) \<or>
            (\<exists>i < length xs. r = xs ! i \<and> w x < w (xs ! i) \<and>
               (\<forall>j < length xs. w (xs ! j) \<le> w (xs ! i)) \<and>
               (\<forall>j < i. w (xs ! j) < w (xs ! i)))" by blast
    have run: "max_loop key m mv (x # xs) = Inr r" using kx True r by simp
    from d show ?thesis
    proof
      assume a: "r = x \<and> (\<forall>y \<in> set xs. w y \<le> w x)"
      have "0 < length (x # xs) \<and> r = (x # xs) ! 0 \<and> mv < w ((x # xs) ! 0) \<and>
              (\<forall>j < length (x # xs). w ((x # xs) ! j) \<le> w ((x # xs) ! 0)) \<and>
              (\<forall>j < 0. w ((x # xs) ! j) < w ((x # xs) ! 0))"
        using a True by (auto simp: nth_Cons split: nat.splits)
      with run show ?thesis by blast
    next
      assume "\<exists>i < length xs. r = xs ! i \<and> w x < w (xs ! i) \<and>
               (\<forall>j < length xs. w (xs ! j) \<le> w (xs ! i)) \<and>
               (\<forall>j < i. w (xs ! j) < w (xs ! i))"
      then obtain i where i: "i < length xs" "r = xs ! i" "w x < w (xs ! i)"
        "\<forall>j < length xs. w (xs ! j) \<le> w (xs ! i)" "\<forall>j < i. w (xs ! j) < w (xs ! i)" by blast
      have "Suc i < length (x # xs) \<and> r = (x # xs) ! Suc i \<and> mv < w ((x # xs) ! Suc i) \<and>
              (\<forall>j < length (x # xs). w ((x # xs) ! j) \<le> w ((x # xs) ! Suc i)) \<and>
              (\<forall>j < Suc i. w ((x # xs) ! j) < w ((x # xs) ! Suc i))"
        using i True by (auto simp: nth_Cons split: nat.splits)
      with run show ?thesis by blast
    qed
  next
    case False
    from Cons.IH [OF rest, of m mv] obtain r where
      r: "max_loop key m mv xs = Inr r"
      and d: "(r = m \<and> (\<forall>y \<in> set xs. w y \<le> mv)) \<or>
            (\<exists>i < length xs. r = xs ! i \<and> mv < w (xs ! i) \<and>
               (\<forall>j < length xs. w (xs ! j) \<le> w (xs ! i)) \<and>
               (\<forall>j < i. w (xs ! j) < w (xs ! i)))" by blast
    have run: "max_loop key m mv (x # xs) = Inr r" using kx False r by simp
    from d show ?thesis
    proof
      assume "r = m \<and> (\<forall>y \<in> set xs. w y \<le> mv)"
      with False run show ?thesis by auto
    next
      assume "\<exists>i < length xs. r = xs ! i \<and> mv < w (xs ! i) \<and>
               (\<forall>j < length xs. w (xs ! j) \<le> w (xs ! i)) \<and>
               (\<forall>j < i. w (xs ! j) < w (xs ! i))"
      then obtain i where i: "i < length xs" "r = xs ! i" "mv < w (xs ! i)"
        "\<forall>j < length xs. w (xs ! j) \<le> w (xs ! i)" "\<forall>j < i. w (xs ! j) < w (xs ! i)" by blast
      have "Suc i < length (x # xs) \<and> r = (x # xs) ! Suc i \<and> mv < w ((x # xs) ! Suc i) \<and>
              (\<forall>j < length (x # xs). w ((x # xs) ! j) \<le> w ((x # xs) ! Suc i)) \<and>
              (\<forall>j < Suc i. w ((x # xs) ! j) < w ((x # xs) ! Suc i))"
        using i False by (auto simp: nth_Cons split: nat.splits)
      with run show ?thesis by blast
    qed
  qed
qed

lemma py_max_first:
  assumes "xs \<noteq> []" "\<forall>x \<in> set xs. key x = Inr (w x)"
  shows "\<exists>i < length xs. py_max key xs = Inr (xs ! i) \<and>
           (\<forall>j < length xs. w (xs ! j) \<le> w (xs ! i)) \<and>
           (\<forall>j < i. w (xs ! j) < w (xs ! i))"
proof -
  from assms(1) obtain x rest where xs: "xs = x # rest" by (cases xs) auto
  with assms(2) have kx: "key x = Inr (w x)" and kr: "\<forall>y \<in> set rest. key y = Inr (w y)" by simp_all
  from max_loop_first [OF kr, of x "w x"] obtain r where
    r: "max_loop key x (w x) rest = Inr r"
    and d: "(r = x \<and> (\<forall>y \<in> set rest. w y \<le> w x)) \<or>
            (\<exists>i < length rest. r = rest ! i \<and> w x < w (rest ! i) \<and>
               (\<forall>j < length rest. w (rest ! j) \<le> w (rest ! i)) \<and>
               (\<forall>j < i. w (rest ! j) < w (rest ! i)))" by blast
  have run: "py_max key xs = Inr r" using xs kx r by (simp add: py_max_def)
  from d show ?thesis
  proof
    assume a: "r = x \<and> (\<forall>y \<in> set rest. w y \<le> w x)"
    have "0 < length xs \<and> py_max key xs = Inr (xs ! 0) \<and>
            (\<forall>j < length xs. w (xs ! j) \<le> w (xs ! 0)) \<and> (\<forall>j < 0. w (xs ! j) < w (xs ! 0))"
      using a run xs by (auto simp: nth_Cons split: nat.splits)
    then show ?thesis by blast
  next
    assume "\<exists>i < length rest. r = rest ! i \<and> w x < w (rest ! i) \<and>
               (\<forall>j < length rest. w (rest ! j) \<le> w (rest ! i)) \<and>
               (\<forall>j < i. w (rest ! j) < w (rest ! i))"
    then obtain i where i: "i < length rest" "r = rest ! i" "w x < w (rest ! i)"
      "\<forall>j < length rest. w (rest ! j) \<le> w (rest ! i)" "\<forall>j < i. w (rest ! j) < w (rest ! i)" by blast
    have "Suc i < length xs \<and> py_max key xs = Inr (xs ! Suc i) \<and>
            (\<forall>j < length xs. w (xs ! j) \<le> w (xs ! Suc i)) \<and>
            (\<forall>j < Suc i. w (xs ! j) < w (xs ! Suc i))"
      using i run xs by (auto simp: nth_Cons split: nat.splits)
    then show ?thesis by blast
  qed
qed

lemma severity_order_issue:
  "is_issue item \<Longrightarrow> severity_order (issue_severity item) = Inr (spec_weight (issue_severity item))"
  by (auto simp: is_issue_def spec_weight_def)

lemma join_Cons: "join sep (x # xs) = x @ concat (map (\<lambda>y. sep @ y) xs)"
  by (induction xs arbitrary: x) simp_all

lemma join_separated: "join sep xs = separated sep xs"
  by (cases xs) (simp_all add: separated_def join_Cons)

lemma merge_issues_ok:
  assumes "items \<noteq> []" "\<forall>item \<in> set items. is_issue item"
  shows "\<exists>i < length items.
           merge_issues args (JArr items) = Inr (merged_suggestion args items (issue_severity (items ! i))) \<and>
           (\<forall>j < length items.
              spec_weight (issue_severity (items ! j)) \<le> spec_weight (issue_severity (items ! i))) \<and>
           (\<forall>j < i. spec_weight (issue_severity (items ! j)) < spec_weight (issue_severity (items ! i)))"
proof -
  let ?sevs = "map issue_severity items"
  from assms(2) have objs: "\<forall>item \<in> set items. is_obj item" by (simp add: is_issue_def)
  have ty: "collect ''type'' (JStr []) items = Inr (map issue_type items)"
    using collect_objects [OF objs] by (simp add: issue_type_def [abs_def])
  have de: "collect ''description'' (JStr []) items = Inr (map issue_description items)"
    using collect_objects [OF objs] by (simp add: issue_description_def [abs_def])
  have se: "collect ''severity'' (JStr ''medium'') items = Inr ?sevs"
    using collect_objects [OF objs] by (simp add: issue_severity_def [abs_def])
  have jt: "str_join '' & '' (map issue_type items) =
              Inr (join '' & '' (map (\<lambda>item. the_str (issue_type item)) items))"
    using assms(2) strings_of_strs [of "map issue_type items"]
    by (simp add: str_join_def is_issue_def comp_def)
  have jd: "str_join '' | '' (map issue_description items) =
              Inr (join '' | '' (map (\<lambda>item. the_str (issue_description item)) items))"
    using assms(2) strings_of_strs [of "map issue_description items"]
    by (simp add: str_join_def is_issue_def comp_def)
  have ne: "?sevs \<noteq> []" using assms(1) by simp
  have keys: "\<forall>x \<in> set ?sevs. severity_order x = Inr (spec_weight x)"
    using assms(2) by (auto simp: severity_order_issue)
  from py_max_first [OF ne keys] obtain i where
    i: "i < length ?sevs" "py_max severity_order ?sevs = Inr (?sevs ! i)"
       "\<forall>j < length ?sevs. spec_weight (?sevs ! j) \<le> spec_weight (?sevs ! i)"
       "\<forall>j < i. spec_weight (?sevs ! j) < spec_weight (?sevs ! i)" by blast
  from i(1) have il: "i < length items" by simp
  have m: "merge_issues args (JArr items) = Inr (merged_suggestion args items (issue_severity (items ! i)))"
    using ty de se jt jd i(2) il
    by (simp add: merge_issues_def merged_suggestion_def join_separated)
  have a: "\<forall>j < length items.
              spec_weight (issue_severity (items ! j)) \<le> spec_weight (issue_severity (items ! i))"
    using i(3) il by simp
  have b: "\<forall>j < i. spec_weight (issue_severity (items ! j)) < spec_weight (issue_severity (items ! i))"
    using i(4) il by simp
  from il m a b show ?thesis by blast
qed

text \<open>
  C4. For every non-empty list of Issues (severities among high, medium, low), the merger
  succeeds and the merged severity is that of the issue at some position \<open>i\<close> such that no
  issue weighs more under high 3, medium 2, low 1, and every issue before \<open>i\<close> weighs strictly
  less: the first issue of maximal weight in input order. In particular the severities
  low, high, medium merge to high, and medium, medium merge to medium.
\<close>

theorem merged_severity_stable_argmax:
  "(items \<noteq> [] \<and> (\<forall>item \<in> set items. is_issue item) \<longrightarrow>
      (\<exists>s i. merge_issues args (JArr items) = Inr s \<and> i < length items \<and>
         severity s = issue_severity (items ! i) \<and>
         (\<forall>j < length items.
            spec_weight (issue_severity (items ! j)) \<le> spec_weight (issue_severity (items ! i))) \<and>
         (\<forall>j < i. spec_weight (issue_severity (items ! j)) < spec_weight (issue_severity (items ! i)))))
   \<and> (\<exists>s. merge_issues args (JArr [issue_obj t1 ''low'' d1, issue_obj t2 ''high'' d2,
                                     issue_obj t3 ''medium'' d3]) = Inr s \<and>
          severity s = JStr ''high'')
   \<and> (\<exists>s. merge_issues args (JArr [issue_obj t1 ''medium'' d1, issue_obj t2 ''medium'' d2]) = Inr s \<and>
          severity s = JStr ''medium'')"
proof (intro conjI impI)
  assume h: "items \<noteq> [] \<and> (\<forall>item \<in> set items. is_issue item)"
  then have ne: "items \<noteq> []" and iss: "\<forall>item \<in> set items. is_issue item" by simp_all
  from merge_issues_ok [OF ne iss, of args] obtain i where
    "i < length items"
    "merge_issues args (JArr items) = Inr (merged_suggestion args items (issue_severity (items ! i)))"
    "\<forall>j < length items.
        spec_weight (issue_severity (items ! j)) \<le> spec_weight (issue_severity (items ! i))"
    "\<forall>j < i. spec_weight (issue_severity (items ! j)) < spec_weight (issue_severity (items ! i))"
    by blast
  moreover have "severity (merged_suggestion args items (issue_severity (items ! i))) =
                   issue_severity (items ! i)"
    by (simp add: merged_suggestion_def)
  ultimately show "\<exists>s i. merge_issues args (JArr items) = Inr s \<and> i < length items \<and>
         severity s = issue_severity (items ! i) \<and>
         (\<forall>j < length items.
            spec_weight (issue_severity (items ! j)) \<le> spec_weight (issue_severity (items ! i))) \<and>
         (\<forall>j < i. spec_weight (issue_severity (items ! j)) < spec_weight (issue_severity (items ! i)))"
    by blast
next
  show "\<exists>s. merge_issues args (JArr [issue_obj t1 ''low'' d1, issue_obj t2 ''high'' d2,
                                     issue_obj t3 ''medium'' d3]) = Inr s \<and>
          severity s = JStr ''high''"
    by (simp add: merge_issues_def issue_obj_def get_default_def py_max_def str_join_def)
next
  show "\<exists>s. merge_issues args (JArr [issue_obj t1 ''medium'' d1, issue_obj t2 ''medium'' d2]) = Inr s \<and>
          severity s = JStr ''medium''"
    by (simp add: merge_issues_def issue_obj_def get_default_def py_max_def str_join_def)
qed

theorem merged_severity_stable_argmax_witness:
  "is_issue (issue_obj ''Structure'' ''low'' ''a'') \<and>
   is_issue (issue_obj ''Punctuation'' ''high'' ''b'') \<and>
   is_issue (issue_obj ''Ambiguity'' ''high'' ''c'') \<and>
   (\<exists>s. merge_issues [] (JArr [issue_obj ''Structure'' ''low'' ''a'',
                               issue_obj ''Punctuation'' ''high'' ''b'',
                               issue_obj ''Ambiguity'' ''high'' ''c'']) = Inr s \<and>
        severity s = JStr ''high'')"
  using merged_severity_stable_argmax [of
      "[issue_obj ''Structure'' ''low'' ''a'', issue_obj ''Punctuation'' ''high'' ''b'',
        issue_obj ''Ambiguity'' ''high'' ''c'']" "[]"]
  by (simp add: is_issue_def issue_obj_def issue_type_def issue_description_def issue_severity_def
      get_default_def merge_issues_def py_max_def str_join_def)

text \<open>
  C5. For every non-empty list of Issues, the merged type is the type of the first issue
  followed, for each further issue in input order, by " & " and its type, and the merged
  description is the description of the first issue followed, for each further issue in input
  order, by " | " and its description; the types Structure, Punctuation give
  "Structure & Punctuation".
\<close>

theorem merge_concatenation:
  "(items \<noteq> [] \<and> (\<forall>item \<in> set items. is_issue item) \<longrightarrow>
      (\<exists>s. merge_issues args (JArr items) = Inr s \<and>
         type s = the_str (issue_type (hd items)) @
                  concat (map (\<lambda>item. '' & '' @ the_str (issue_type item)) (tl items)) \<and>
         description s = the_str (issue_description (hd items)) @
                  concat (map (\<lambda>item. '' | '' @ the_str (issue_description item)) (tl items))))
   \<and> (\<exists>s. merge_issues args (JArr [issue_obj ''Structure'' s1 d1, issue_obj ''Punctuation'' s2 d2]) = Inr s \<and>
          type s = ''Structure & Punctuation'' \<and> description s = d1 @ '' | '' @ d2)"
proof (intro conjI impI)
  assume h: "items \<noteq> [] \<and> (\<forall>item \<in> set items. is_issue item)"
  then have ne: "items \<noteq> []" and iss: "\<forall>item \<in> set items. is_issue item" by simp_all
  from ne obtain x rest where xs: "items = x # rest" by (cases items) auto
  from merge_issues_ok [OF ne iss, of args] obtain i where
    "merge_issues args (JArr items) = Inr (merged_suggestion args items (issue_severity (items ! i)))"
    by blast
  then show "\<exists>s. merge_issues args (JArr items) = Inr s \<and>
         type s = the_str (issue_type (hd items)) @
                  concat (map (\<lambda>item. '' & '' @ the_str (issue_type item)) (tl items)) \<and>
         description s = the_str (issue_description (hd items)) @
                  concat (map (\<lambda>item. '' | '' @ the_str (issue_description item)) (tl items))"
    using xs by (simp add: merged_suggestion_def separated_def comp_def)
next
  show "\<exists>s. merge_issues args (JArr [issue_obj ''Structure'' s1 d1, issue_obj ''Punctuation'' s2 d2]) = Inr s \<and>
          type s = ''Structure & Punctuation'' \<and> description s = d1 @ '' | '' @ d2"
    by (simp add: merge_issues_def issue_obj_def get_default_def py_max_def str_join_def)
qed

theorem merge_concatenation_witness:
  "is_issue (issue_obj ''Structure'' ''low'' ''a'') \<and>
   is_issue (issue_obj ''Punctuation'' ''high'' ''b'') \<and>
   is_issue (issue_obj ''Ambiguity'' ''medium'' ''c'') \<and>
   (\<exists>s. merge_issues [] (JArr [issue_obj ''Structure'' ''low'' ''a'',
                               issue_obj ''Punctuation'' ''high'' ''b'',
                               issue_obj ''Ambiguity'' ''medium'' ''c'']) = Inr s \<and>
        type s = ''Structure & Punctuation & Ambiguity'' \<and> description s = ''a | b | c'')"
  using merge_concatenation [of
      "[issue_obj ''Structure'' ''low'' ''a'', issue_obj ''Punctuation'' ''high'' ''b'',
        issue_obj ''Ambiguity'' ''medium'' ''c'']" "[]"]
  by (simp add: is_issue_def issue_obj_def issue_type_def issue_description_def issue_severity_def
      get_default_def merge_issues_def py_max_def str_join_def)

section \<open>The loop over the completed invocations\<close>

lemma process_calls_append:
  "process_calls loads st (xs @ ys) =
     (case process_calls loads st xs of Inl e \<Rightarrow> Inl e | Inr st' \<Rightarrow> process_calls loads st' ys)"
  by (induction xs arbitrary: st) (simp_all split: sum.splits)

lemma handle_create_suggestion_same:
  assumes "same_response st st'"
  shows "rel_sum (=) same_response
           (handle_create_suggestion loads st fc) (handle_create_suggestion loads st' fc)"
proof (cases "loads (arguments fc)")
  case (Inl e)
  with assms show ?thesis
    by (cases e) (simp_all add: handle_create_suggestion_def same_response_def)
next
  case (Inr v)
  show ?thesis
  proof (cases v)
    case (JObj args)
    show ?thesis
    proof (cases "merge_issues args (text_issues_of args)")
      case (Inl e)
      with assms Inr JObj show ?thesis
        by (simp add: handle_create_suggestion_def same_response_def Let_def)
    next
      case (Inr s)
      with assms \<open>loads (arguments fc) = Inr v\<close> JObj show ?thesis
        by (simp add: handle_create_suggestion_def same_response_def Let_def)
    qed
  qed (use assms Inr in \<open>simp_all add: handle_create_suggestion_def\<close>)
qed

lemma handle_insert_diagram_same:
  assumes "same_response st st'"
  shows "rel_sum (=) same_response
           (handle_insert_diagram loads st fc) (handle_insert_diagram loads st' fc)"
proof (cases "loads (arguments fc)")
  case (Inl e)
  with assms show ?thesis
    by (cases e) (simp_all add: handle_insert_diagram_def same_response_def)
next
  case (Inr v)
  show ?thesis
  proof (cases v)
    case (JObj args)
    with assms Inr show ?thesis
      by (simp add: handle_insert_diagram_def same_response_def Let_def)
  qed (use assms Inr in \<open>simp_all add: handle_insert_diagram_def\<close>)
qed

lemma process_call_same:
  "same_response st st' \<Longrightarrow>
     rel_sum (=) same_response (process_call loads st fc) (process_call loads st' fc)"
  by (simp add: process_call_def handle_create_suggestion_same handle_insert_diagram_same)

lemma process_calls_same:
  "same_response st st' \<Longrightarrow>
     rel_sum (=) same_response (process_calls loads st fcs) (process_calls loads st' fcs)"
proof (induction fcs arbitrary: st st')
  case Nil
  then show ?case by simp
next
  case (Cons fc fcs)
  from process_call_same [OF Cons.prems, of loads fc]
  have r: "rel_sum (=) same_response (process_call loads st fc) (process_call loads st' fc)" .
  show ?case
  proof (cases "process_call loads st fc")
    case (Inl e)
    with r show ?thesis by (cases "process_call loads st' fc") simp_all
  next
    case (Inr s)
    with r obtain s' where "process_call loads st' fc = Inr s'" "same_response s s'"
      by (cases "process_call loads st' fc") simp_all
    with Inr Cons.IH [of s s'] show ?thesis by simp
  qed
qed


lemma review_calls_same:
  assumes "rel_sum (=) same_response r r'"
  shows "(case r of Inl e \<Rightarrow> ([], Some e)
          | Inr st \<Rightarrow> ([ResponseJson \<lparr>issues = issues st, diagram_insertions = diagram_insertions st\<rparr>], None)) =
         (case r' of Inl e \<Rightarrow> ([], Some e)
          | Inr st \<Rightarrow> ([ResponseJson \<lparr>issues = issues st, diagram_insertions = diagram_insertions st\<rparr>], None))"
  using assms by (cases r; cases r') (simp_all add: same_response_def)

lemma review_calls_drop:
  assumes "\<And>st. \<exists>st'. process_call loads st fc = Inr st' \<and> same_response st st'"
  shows "review_calls loads (pre @ fc # post) = review_calls loads (pre @ post)"
proof (cases "process_calls loads init_review pre")
  case (Inl e)
  then show ?thesis by (simp add: review_calls_def process_calls_append)
next
  case (Inr st)
  from assms [of st] obtain st' where s: "process_call loads st fc = Inr st'"
    and r: "same_response st st'" by blast
  have "rel_sum (=) same_response (process_calls loads st post) (process_calls loads st' post)"
    using process_calls_same [OF r] .
  from review_calls_same [OF this] show ?thesis
    using Inr s by (simp add: review_calls_def process_calls_append)
qed



lemma text_issues_legacy:
  assumes "dict_get args ''issues'' = None \<or> dict_get args ''issues'' = Some (JArr [])"
    "dict_get args ''type'' = Some (JStr t)" "t \<noteq> []"
    "dict_get args ''severity'' = Some (JStr sv)" "dict_get args ''description'' = Some (JStr d)"
  shows "text_issues_of args = JArr [issue_obj t sv d]"
  using assms by (auto simp: text_issues_of_def get_default_def Let_def issue_obj_def)

lemma text_issues_none:
  assumes "dict_get args ''issues'' = None \<or> dict_get args ''issues'' = Some (JArr [])"
    "dict_get args ''type'' = None \<or> dict_get args ''type'' = Some (JStr [])"
  shows "\<not> truthy (text_issues_of args)"
  using assms by (auto simp: text_issues_of_def get_default_def Let_def)

section \<open>Texts and streams of the examples\<close>





lemma aggregate_legacy_stream: "aggregate legacy_stream = [legacy_call]"
  by (simp add: legacy_stream_def legacy_call_def aggregate_def delta_step_def tool_call_step_def
      Let_def init_state_def finalize_def dict_values_def chunk_fragment_def)

lemma aggregate_empty_type_stream: "aggregate empty_type_stream = [empty_type_call]"
  by (simp add: empty_type_stream_def empty_type_call_def aggregate_def delta_step_def
      tool_call_step_def Let_def init_state_def finalize_def dict_values_def)



section \<open>The legacy argument shape\<close>

text \<open>
  C6, as stated: a create_suggestion invocation whose parsed arguments carry no issues array but
  a flat type, severity, description triple yields a suggestion whose issues list is that one
  triple. For the triple with the empty type, \<open>{"type": "", "severity": "low",
  "description": "d"}\<close>, the test \<open>args.get("type")\<close> of line 122 is false, the list stays
  empty, line 130 skips the merge, and the cycle yields a response without any suggestion.
\<close>

theorem legacy_shape_normalization_counterexample:
  "aggregate empty_type_stream = [empty_type_call]
   \<and> loads_sample (arguments empty_type_call) =
       Inr (JObj [(''type'', JStr []), (''severity'', JStr ''low''), (''description'', JStr ''d'')])
   \<and> text_issues_of [(''type'', JStr []), (''severity'', JStr ''low''), (''description'', JStr ''d'')]
       = JArr []
   \<and> review_document_with_functions loads_sample empty_type_stream =
       ([ResponseJson \<lparr>issues = [], diagram_insertions = []\<rparr>], None)"
  by (simp add: aggregate_empty_type_stream review_document_with_functions_def review_calls_def
      process_call_def handle_create_suggestion_def empty_type_call_def loads_sample_def
      text_issues_of_def get_default_def Let_def init_review_def)

text \<open>
  C6, amended. A create_suggestion invocation whose parsed arguments have no issues array (or an
  empty one) and carry the flat strings type, severity and description, with a non-empty type,
  is normalized to the one-element list holding the Issue of these three strings, and that list
  is merged: in any state of the loop the invocation appends exactly one suggestion, whose
  issues list is that one-element list, and a stream completing only this invocation yields the
  response with that single suggestion. The payload Ambiguity, low, d is an instance.
\<close>

theorem legacy_shape_normalization:
  assumes "name fc = ''create_suggestion''" "loads (arguments fc) = Inr (JObj args)"
    "dict_get args ''issues'' = None \<or> dict_get args ''issues'' = Some (JArr [])"
    "dict_get args ''type'' = Some (JStr t)" "t \<noteq> []"
    "dict_get args ''severity'' = Some (JStr sv)" "dict_get args ''description'' = Some (JStr d)"
  shows "text_issues_of args = JArr [issue_obj t sv d]
       \<and> process_call loads st fc =
           Inr (st\<lparr>issues := issues st @ [merged_suggestion args [issue_obj t sv d] (JStr sv)]\<rparr>)
       \<and> issues_field (merged_suggestion args [issue_obj t sv d] (JStr sv)) = JArr [issue_obj t sv d]
       \<and> (aggregate stream = [fc] \<longrightarrow>
            review_document_with_functions loads stream =
              ([ResponseJson \<lparr>issues = [merged_suggestion args [issue_obj t sv d] (JStr sv)],
                              diagram_insertions = []\<rparr>], None))"
proof -
  have ti: "text_issues_of args = JArr [issue_obj t sv d]"
    using text_issues_legacy [OF assms(3-7)] .
  have mi: "merge_issues args (JArr [issue_obj t sv d]) =
              Inr (merged_suggestion args [issue_obj t sv d] (JStr sv))"
    by (simp add: merge_issues_def merged_suggestion_def separated_def issue_obj_def
        get_default_def py_max_def str_join_def issue_type_def issue_description_def)
  have pc: "\<And>st. process_call loads st fc =
           Inr (st\<lparr>issues := issues st @ [merged_suggestion args [issue_obj t sv d] (JStr sv)]\<rparr>)"
    using assms(1,2) ti mi by (simp add: process_call_def handle_create_suggestion_def Let_def)
  have cy: "aggregate stream = [fc] \<longrightarrow>
            review_document_with_functions loads stream =
              ([ResponseJson \<lparr>issues = [merged_suggestion args [issue_obj t sv d] (JStr sv)],
                              diagram_insertions = []\<rparr>], None)"
    using pc [of init_review]
    by (simp add: review_document_with_functions_def review_calls_def init_review_def)
  show ?thesis using ti pc cy by (simp add: merged_suggestion_def)
qed

theorem legacy_shape_normalization_witness:
  "aggregate legacy_stream = [legacy_call] \<and>
   loads_sample (arguments legacy_call) =
     Inr (JObj [(''type'', JStr ''Ambiguity''), (''severity'', JStr ''low''),
                (''description'', JStr ''d'')]) \<and>
   review_document_with_functions loads_sample legacy_stream =
     ([ResponseJson
        \<lparr>issues = [\<lparr>type = ''Ambiguity'', severity = JStr ''low'', paragraph_field = JInt 1,
                    description = ''d'', text_field = JStr [], suggestion_field = JStr [],
                    originalText = JStr [], replaceTo = JStr [],
                    issues_field = JArr [JObj [(''type'', JStr ''Ambiguity''),
                                               (''severity'', JStr ''low''),
                                               (''description'', JStr ''d'')]]\<rparr>],
         diagram_insertions = []\<rparr>], None)"
  using legacy_shape_normalization [of legacy_call loads_sample
      "[(''type'', JStr ''Ambiguity''), (''severity'', JStr ''low''), (''description'', JStr ''d'')]"
      "''Ambiguity''" "''low''" "''d''" init_review legacy_stream]
    aggregate_legacy_stream
  by (simp add: legacy_call_def loads_sample_def merged_suggestion_def separated_def issue_obj_def
      issue_type_def issue_description_def get_default_def)

section \<open>Arguments that do not parse\<close>




section \<open>Plain text of the stream\<close>

lemma texts_of_append_text: "texts_of (map Text xs @ ys) = xs @ texts_of ys"
  by (induction xs) simp_all

lemma chat_call_no_text: "chat_call loads fc = Inr ys \<Longrightarrow> texts_of ys = []"
  by (auto simp: chat_call_def split: if_splits sum.splits error.splits json.splits)

lemma texts_of_append: "texts_of (xs @ ys) = texts_of xs @ texts_of ys"
  by (induction xs rule: texts_of.induct) simp_all

lemma chat_calls_no_text: "texts_of (fst (chat_calls loads fcs)) = []"
proof (induction fcs)
  case Nil
  then show ?case by simp
next
  case (Cons fc fcs)
  show ?case
  proof (cases "chat_call loads fc")
    case (Inl e)
    then show ?thesis by simp
  next
    case (Inr ys)
    with Cons chat_call_no_text [OF Inr] show ?thesis by (simp add: texts_of_append)
  qed
qed

lemma chat_yields:
  "chat_with_document_context loads stream =
     (map Text (stream_text stream) @ fst (chat_calls loads (aggregate stream)),
      snd (chat_calls loads (aggregate stream)))"
  using chat_loop_text [of "([], init_state)" stream] chat_loop_state [of "([], init_state)" stream]
  by (simp add: chat_with_document_context_def Let_def aggregate_def)

lemma fragments_without_content:
  "fragments (map (\<lambda>d. d\<lparr>content := None\<rparr>) stream) = fragments stream"
  by (induction stream) (simp_all add: fragments_def)

lemma review_calls_yields:
  "texts_of (fst (review_calls loads fcs)) = [] \<and> length (fst (review_calls loads fcs)) \<le> 1"
  by (simp add: review_calls_def split: sum.splits)

text \<open>
  C8, as stated: each plain-text content fragment is forwarded to the caller in both cycles.
  For the stream whose only delta carries the text "hi", the chat cycle yields that text, and
  the review cycle yields only the response: \<open>review_document_with_functions\<close> passes
  \<open>delta.content\<close> to \<open>logger.debug\<close> and never yields it.
\<close>

theorem text_passthrough_counterexample:
  "stream_text [\<lparr>content = Some ''hi'', tool_calls = None\<rparr>] = [''hi'']
   \<and> review_document_with_functions loads_sample [\<lparr>content = Some ''hi'', tool_calls = None\<rparr>] =
       ([ResponseJson \<lparr>issues = [], diagram_insertions = []\<rparr>], None)
   \<and> chat_with_document_context loads_sample [\<lparr>content = Some ''hi'', tool_calls = None\<rparr>] =
       ([Text ''hi''], None)"
  by (simp add: stream_text_def review_document_with_functions_def review_calls_def aggregate_def
      delta_step_def init_state_def finalize_def dict_values_def init_review_def
      chat_with_document_context_def chat_delta_step_def Let_def)

text \<open>
  C8, amended. In the chat cycle with document context, the yielded strings are the non-empty
  content fragments of the stream, in arrival order, followed by what the completed
  invocations yield; the text among the yielded strings is exactly the content of the stream,
  whatever the tool-call fragments are and whether or not an invocation fails later. In the
  review cycle no content fragment is forwarded: it yields at most one string, the response,
  and what it yields does not depend on the content of any delta.
\<close>

theorem text_passthrough:
  "fst (chat_with_document_context loads stream) =
     map Text (stream_text stream) @ fst (chat_calls loads (aggregate stream))
   \<and> texts_of (fst (chat_with_document_context loads stream)) = stream_text stream
   \<and> texts_of (fst (review_document_with_functions loads stream)) = []
   \<and> length (fst (review_document_with_functions loads stream)) \<le> 1
   \<and> review_document_with_functions loads (map (\<lambda>d. d\<lparr>content := None\<rparr>) stream) =
       review_document_with_functions loads stream"
proof (intro conjI)
  show "fst (chat_with_document_context loads stream) =
     map Text (stream_text stream) @ fst (chat_calls loads (aggregate stream))"
    by (simp add: chat_yields)
  show "texts_of (fst (chat_with_document_context loads stream)) = stream_text stream"
    by (simp add: chat_yields texts_of_append_text chat_calls_no_text)
  show "texts_of (fst (review_document_with_functions loads stream)) = []"
    using review_calls_yields [of loads "aggregate stream"]
    by (simp add: review_document_with_functions_def)
  show "length (fst (review_document_with_functions loads stream)) \<le> 1"
    using review_calls_yields [of loads "aggregate stream"]
    by (simp add: review_document_with_functions_def)
  show "review_document_with_functions loads (map (\<lambda>d. d\<lparr>content := None\<rparr>) stream) =
       review_document_with_functions loads stream"
    by (simp add: review_document_with_functions_def aggregate_fragments fragments_without_content)
qed

section \<open>The diagram-only cycle\<close>

lemma aggregate_diagram_stream: "aggregate diagram_stream = [diagram_call]"
  by (simp add: diagram_stream_def diagram_call_def aggregate_def delta_step_def tool_call_step_def
      Let_def init_state_def finalize_def dict_values_def chunk_fragment_def)

lemma aggregate_number_anchor_stream:
  \<open>aggregate number_anchor_stream =
     [\<lparr>name = ''insert_diagram'', arguments = ''{"insert_after_text": 5}''\<rparr>]\<close>
  by (simp add: number_anchor_stream_def aggregate_def delta_step_def tool_call_step_def
      Let_def init_state_def finalize_def dict_values_def)

text \<open>
  Where the diagram-only cycle does what the specification says: the completed invocations are
  exactly one insert_diagram invocation whose arguments parse to an object with an anchor
  \<open>insert_after_text\<close> that is absent, a string or a list. Then the review cycle yields one
  response with no issues and exactly one diagram insertion; its \<open>diagram_type\<close> is
  "flowchart" when that key is absent and its \<open>title\<close> is the empty string when that key is
  absent, and both are the given values otherwise.
\<close>

lemma diagram_insertion_defaults:
  assumes "aggregate stream = [fc]" "name fc = ''insert_diagram''"
    "loads (arguments fc) = Inr (JObj args)"
    "sliceable (get_default args ''insert_after_text'' (JStr []))"
  shows "\<exists>d. review_document_with_functions loads stream =
               ([ResponseJson \<lparr>issues = [], diagram_insertions = [d]\<rparr>], None) \<and>
             insert_after_text d = get_default args ''insert_after_text'' (JStr []) \<and>
             mermaid_syntax d = get_default args ''mermaid_syntax'' (JStr []) \<and>
             (dict_get args ''diagram_type'' = None \<longrightarrow> diagram_type d = JStr ''flowchart'') \<and>
             (dict_get args ''title'' = None \<longrightarrow> title d = JStr []) \<and>
             (\<forall>v. dict_get args ''diagram_type'' = Some v \<longrightarrow> diagram_type d = v) \<and>
             (\<forall>v. dict_get args ''title'' = Some v \<longrightarrow> title d = v)"
  using assms
  by (simp add: review_document_with_functions_def review_calls_def process_call_def
      handle_insert_diagram_def init_review_def get_default_def Let_def)

lemma diagram_stream_response:
  "review_document_with_functions loads_sample diagram_stream =
     ([ResponseJson
         \<lparr>issues = [],
          diagram_insertions =
            [\<lparr>insert_after_text = JStr ''claim 1'', mermaid_syntax = JStr ''graph TD'',
              diagram_type = JStr ''flowchart'', title = JStr []\<rparr>]\<rparr>], None)"
  by (simp add: aggregate_diagram_stream review_document_with_functions_def review_calls_def
      process_call_def handle_insert_diagram_def init_review_def get_default_def Let_def
      diagram_call_def loads_sample_def)

text \<open>
  C9. If the completed invocations of the stream are exactly one insert_diagram invocation with
  parseable arguments, the review result has no issues and exactly one diagram insertion, with
  the defaults "flowchart" and "" for an absent \<open>diagram_type\<close> and \<open>title\<close>. The code
  misses this on the stream whose only invocation is insert_diagram with the arguments
  \<open>{"insert_after_text": 5}\<close>, which parse and have neither key: the insertion is built and
  appended (lines 164-170), then the log line 171 slices \<open>args.get('insert_after_text', '')[:50]\<close>
  and raises \<open>TypeError\<close> on the number, nothing catches it, and the review cycle yields no
  response. The chat cycle with document context builds the same insertion without that log
  line (lines 333-339) and yields it, with both defaults.
\<close>

theorem diagram_only_cycle_failing_input:
  \<open>aggregate number_anchor_stream =
     [\<lparr>name = ''insert_diagram'', arguments = ''{"insert_after_text": 5}''\<rparr>]
   \<and> loads_sample ''{"insert_after_text": 5}'' = Inr (JObj [(''insert_after_text'', JInt 5)])
   \<and> review_document_with_functions loads_sample number_anchor_stream = ([], Some TypeError)
   \<and> chat_with_document_context loads_sample number_anchor_stream =
       ([DiagramInsert \<lparr>insert_after_text = JInt 5, mermaid_syntax = JStr [],
                        diagram_type = JStr ''flowchart'', title = JStr []\<rparr>], None)\<close>
proof (intro conjI)
  show \<open>aggregate number_anchor_stream =
     [\<lparr>name = ''insert_diagram'', arguments = ''{"insert_after_text": 5}''\<rparr>]\<close>
    by (rule aggregate_number_anchor_stream)
  show \<open>loads_sample ''{"insert_after_text": 5}'' = Inr (JObj [(''insert_after_text'', JInt 5)])\<close>
    by (simp add: loads_sample_def)
  show "review_document_with_functions loads_sample number_anchor_stream = ([], Some TypeError)"
    by (simp add: aggregate_number_anchor_stream review_document_with_functions_def
        review_calls_def process_call_def handle_insert_diagram_def init_review_def
        get_default_def Let_def loads_sample_def)
  have t: "stream_text number_anchor_stream = []"
    by (simp add: stream_text_def number_anchor_stream_def)
  show "chat_with_document_context loads_sample number_anchor_stream =
       ([DiagramInsert \<lparr>insert_after_text = JInt 5, mermaid_syntax = JStr [],
                        diagram_type = JStr ''flowchart'', title = JStr []\<rparr>], None)"
    by (simp add: chat_yields t aggregate_number_anchor_stream chat_call_def get_default_def
        loads_sample_def)
qed

section \<open>A suggestion invocation without issues\<close>

text \<open>
  C10. A create_suggestion invocation whose arguments parse to an object with an absent or
  empty issues array and an absent or empty legacy type leaves the state of the loop
  unchanged: no suggestion is added, nothing is raised and no parse failure is reported. The
  loop goes on with the remaining invocations, and the cycle yields what it yields without
  that invocation.
\<close>

theorem empty_suggestion_skipped:
  assumes "name fc = ''create_suggestion''" "loads (arguments fc) = Inr (JObj args)"
    "dict_get args ''issues'' = None \<or> dict_get args ''issues'' = Some (JArr [])"
    "dict_get args ''type'' = None \<or> dict_get args ''type'' = Some (JStr [])"
  shows "process_call loads st fc = Inr st
       \<and> process_calls loads st (fc # post) = process_calls loads st post
       \<and> review_calls loads (pre @ fc # post) = review_calls loads (pre @ post)"
proof -
  have skip: "\<And>st. process_call loads st fc = Inr st"
    using assms(1,2) text_issues_none [OF assms(3,4)]
    by (simp add: process_call_def handle_create_suggestion_def Let_def)
  have "\<And>st. \<exists>st'. process_call loads st fc = Inr st' \<and> same_response st st'"
    using skip by (simp add: same_response_def)
  from review_calls_drop [of loads fc pre post, OF this] skip show ?thesis by simp
qed

theorem empty_suggestion_skipped_witness:
  "loads_sample (arguments empty_call) =
     Inr (JObj [(''originalText'', JStr ''a''), (''replaceTo'', JStr ''b''), (''issues'', JArr [])]) \<and>
   process_call loads_sample init_review empty_call = Inr init_review \<and>
   review_calls loads_sample [empty_call, diagram_call] = review_calls loads_sample [diagram_call] \<and>
   review_calls loads_sample [empty_call] =
     ([ResponseJson \<lparr>issues = [], diagram_insertions = []\<rparr>], None)"
  using empty_suggestion_skipped [of empty_call loads_sample
      "[(''originalText'', JStr ''a''), (''replaceTo'', JStr ''b''), (''issues'', JArr [])]"
      init_review "[diagram_call]" "[]"]
    empty_suggestion_skipped [of empty_call loads_sample
      "[(''originalText'', JStr ''a''), (''replaceTo'', JStr ''b''), (''issues'', JArr [])]"
      init_review "[]" "[]"]
  by (simp add: empty_call_def loads_sample_def review_calls_def init_review_def)

section \<open>Exceptions that leave the loop\<close>

text \<open>
  The two handlers catch \<open>json.JSONDecodeError\<close> only. Any other exception of
  \<open>json.loads\<close>, arguments that parse to something other than an object, and an
  \<open>insert_after_text\<close> that cannot be sliced raise inside the loop, and the generator ends
  without yielding a response. An invocation with any other name is never parsed.
\<close>

lemma parser_exception_raises:
  assumes "loads (arguments fc) = Inl e" "e \<noteq> JSONDecodeError"
    "name fc = ''create_suggestion'' \<or> name fc = ''insert_diagram''"
  shows "process_call loads st fc = Inl e"
  using assms
  by (cases e) (auto simp: process_call_def handle_create_suggestion_def handle_insert_diagram_def)

lemma non_object_arguments_raise:
  assumes "loads (arguments fc) = Inr v" "\<not> is_obj v"
    "name fc = ''create_suggestion'' \<or> name fc = ''insert_diagram''"
  shows "process_call loads st fc = Inl AttributeError"
  using assms
  by (cases v) (auto simp: process_call_def handle_create_suggestion_def handle_insert_diagram_def)

lemma unsliceable_anchor_raises:
  assumes "name fc = ''insert_diagram''" "loads (arguments fc) = Inr (JObj args)"
    "\<not> sliceable (get_default args ''insert_after_text'' (JStr []))"
  shows "process_call loads st fc = Inl TypeError"
  using assms by (simp add: process_call_def handle_insert_diagram_def Let_def)

lemma raising_call_ends_cycle:
  "process_call loads init_review fc = Inl e \<Longrightarrow> review_calls loads (fc # fcs) = ([], Some e)"
  by (simp add: review_calls_def)

lemma unknown_name_ignored:
  "name fc \<noteq> ''create_suggestion'' \<Longrightarrow> name fc \<noteq> ''insert_diagram'' \<Longrightarrow>
     process_call loads st fc = Inr st"
  by (simp add: process_call_def)

end
